theory Spec2Isabelle
  imports Complex_Main
begin

section \<open>Double-precision numbers\<close>

text \<open>
  The solver kernels of \<^verbatim>\<open>mhd/interface.py\<close> compute on NumPy \<^verbatim>\<open>float64\<close> arrays. A
  \<open>double\<close> is modelled as a real number of the form \<open>m * 2^k\<close> with \<open>\<bar>m\<bar> < 2^53\<close>,
  and every arithmetic operation returns the exact real result rounded to the nearest such
  number, ties to the even mantissa (\<open>rnd64\<close>), as IEEE 754 binary64 does. The exponent
  range is not bounded: overflow to infinity and gradual underflow are outside the model.
  A NaN is not a value of the type; an operation that would produce one (the square root of
  a negative number, an array division by zero) is a fault of the computation, see below.
\<close>


definition rte :: "real \<Rightarrow> int" where
  "rte y = (let f = \<lfloor>y\<rfloor>; d = y - of_int f in
      if d < 1/2 then f else if 1/2 < d then f + 1 else if even f then f else f + 1)"

definition expo :: "real \<Rightarrow> int" where
  "expo x = \<lfloor>log 2 \<bar>x\<bar>\<rfloor>"

definition ulp :: "real \<Rightarrow> real" where
  "ulp x = 2 powi (expo x - 52)"

definition rnd64 :: "real \<Rightarrow> real" where
  "rnd64 x = (if x = 0 then 0 else of_int (rte (x / ulp x)) * ulp x)"

definition F64 :: "real set" where
  "F64 = {x. \<exists>m k. x = of_int m * 2 powi k \<and> \<bar>m\<bar> < 2 ^ 53}"

subsection \<open>Rounding to nearest, ties to even\<close>

lemma rte_of_int [simp]: "rte (of_int n) = n"
  by (simp add: rte_def Let_def)

lemma rte_lower: "of_int n \<le> y \<Longrightarrow> n \<le> rte y"
proof -
  assume "of_int n \<le> y"
  then have "n \<le> \<lfloor>y\<rfloor>" by (simp add: le_floor_iff)
  then show ?thesis by (auto simp: rte_def Let_def)
qed

lemma rte_upper: "y \<le> of_int n \<Longrightarrow> rte y \<le> n"
proof -
  assume h: "y \<le> of_int n"
  have fl: "\<lfloor>y\<rfloor> \<le> n" using h by (simp add: floor_le_iff) 
  show ?thesis
  proof (cases "\<lfloor>y\<rfloor> = n")
    case True
    then have "y = of_int n" using h
      by (metis floor_less_iff less_le) 
    then show ?thesis by simp
  next
    case False
    then have "\<lfloor>y\<rfloor> + 1 \<le> n" using fl by simp
    then show ?thesis using fl by (auto simp: rte_def Let_def)
  qed
qed

lemma rte_mono: "x \<le> y \<Longrightarrow> rte x \<le> rte y"
proof -
  assume h: "x \<le> y"
  then have fl: "\<lfloor>x\<rfloor> \<le> \<lfloor>y\<rfloor>" by (rule floor_mono)
  show ?thesis
  proof (cases "\<lfloor>x\<rfloor> = \<lfloor>y\<rfloor>")
    case True
    then show ?thesis using h by (auto simp: rte_def Let_def)
  next
    case False
    then have "\<lfloor>x\<rfloor> + 1 \<le> \<lfloor>y\<rfloor>" using fl by simp
    moreover have "rte x \<le> \<lfloor>x\<rfloor> + 1" by (auto simp: rte_def Let_def)
    moreover have "\<lfloor>y\<rfloor> \<le> rte y" by (auto simp: rte_def Let_def)
    ultimately show ?thesis by linarith
  qed
qed

lemma rte_minus: "rte (- y) = - rte y"
proof (cases "y \<in> \<int>")
  case True
  then obtain n where "y = of_int n" by (auto elim: Ints_cases)
  then have "- y = of_int (- n)" by simp
  then show ?thesis using \<open>y = of_int n\<close> by (metis rte_of_int)
next
  case False
  then have "y \<noteq> of_int \<lfloor>y\<rfloor>" by (metis Ints_of_int)
  then have fl: "\<lfloor>- y\<rfloor> = - \<lfloor>y\<rfloor> - 1"
    by (simp add: floor_minus ceiling_altdef) 
  show ?thesis
    unfolding rte_def Let_def fl by (auto simp: algebra_simps)
qed

lemma powr_powi2: "2 powr of_int k = (2::real) powi k"
  by (rule powr_real_of_int') simp_all

lemma expo_bounds:
  assumes "x \<noteq> 0"
  shows "2 powi expo x \<le> \<bar>x\<bar>" and "\<bar>x\<bar> < 2 powi (expo x + 1)"
proof -
  have pos: "0 < \<bar>x\<bar>" using assms by simp
  have "\<lfloor>log 2 \<bar>x\<bar>\<rfloor> = expo x" by (simp add: expo_def)
  then have "2 powr of_int (expo x) \<le> \<bar>x\<bar> \<and> \<bar>x\<bar> < 2 powr of_int (expo x + 1)"
    using floor_log_eq_powr_iff[OF pos, of 2 "expo x"] by simp
  then show "2 powi expo x \<le> \<bar>x\<bar>" and "\<bar>x\<bar> < 2 powi (expo x + 1)"
    unfolding powr_powi2 by simp_all
qed

lemma expo_eqI: "2 powi k \<le> \<bar>x\<bar> \<Longrightarrow> \<bar>x\<bar> < 2 powi (k + 1) \<Longrightarrow> expo x = k"
proof -
  assume a: "2 powi k \<le> \<bar>x\<bar>" and b: "\<bar>x\<bar> < 2 powi (k + 1)"
  have "0 < (2::real) powi k" by simp
  then have pos: "0 < \<bar>x\<bar>" using a by linarith
  have "2 powr of_int k \<le> \<bar>x\<bar> \<and> \<bar>x\<bar> < 2 powr of_int (k + 1)"
    unfolding powr_powi2 using a b by simp
  then show ?thesis
    unfolding expo_def using floor_log_eq_powr_iff[OF pos, of 2 k] by simp
qed

lemma ulp_pos [simp]: "0 < ulp x"
  by (simp add: ulp_def)

lemma scaled_bounds:
  assumes "x \<noteq> 0"
  shows "2 ^ 52 \<le> \<bar>x / ulp x\<bar>" and "\<bar>x / ulp x\<bar> < 2 ^ 53"
proof -
  define t where "t = \<bar>x\<bar> / 2 powi expo x"
  have u: "ulp x = 2 powi expo x / 2 ^ 52" by (simp add: ulp_def power_int_diff)
  have e: "0 < (2::real) powi expo x" by simp
  have eq: "\<bar>x / ulp x\<bar> = t * 2 ^ 52" by (simp add: u abs_mult t_def)
  have t1: "1 \<le> t" unfolding t_def using expo_bounds(1)[OF assms] e by simp
  have t2: "t < 2" unfolding t_def using expo_bounds(2)[OF assms] e
    by (simp add: power_int_add divide_simps)
  show "2 ^ 52 \<le> \<bar>x / ulp x\<bar>" unfolding eq using t1 by simp
  show "\<bar>x / ulp x\<bar> < 2 ^ 53" unfolding eq using t2 by simp
qed


lemma F64_I: "\<bar>m\<bar> < 2 ^ 53 \<Longrightarrow> of_int m * 2 powi k \<in> F64"
  by (auto simp: F64_def)

lemma rnd64_zero [simp]: "rnd64 0 = 0"
  by (simp add: rnd64_def)

lemma ulp_nonneg [simp]: "0 \<le> ulp x"
  by (simp add: ulp_def)

lemma rte_scaled:
  assumes "x \<noteq> 0"
  shows "\<bar>rte (x / ulp x)\<bar> \<le> 2 ^ 53" and "2 ^ 52 \<le> \<bar>rte (x / ulp x)\<bar>"
    and "0 < x \<Longrightarrow> 2 ^ 52 \<le> rte (x / ulp x)" and "x < 0 \<Longrightarrow> rte (x / ulp x) \<le> - (2 ^ 52)"
proof -
  define y where "y = x / ulp x"
  have lo: "2 ^ 52 \<le> \<bar>y\<bar>" and hi: "\<bar>y\<bar> < 2 ^ 53"
    unfolding y_def using scaled_bounds[OF assms] by auto
  have "y \<le> of_int (2 ^ 53)" using hi by simp
  then have a: "rte y \<le> 2 ^ 53" by (rule rte_upper)
  have "of_int (- (2 ^ 53)) \<le> y" using hi by simp
  then have b: "- (2 ^ 53) \<le> rte y" by (rule rte_lower)
  have p: "0 < x \<Longrightarrow> 2 ^ 52 \<le> rte y"
  proof -
    assume "0 < x"
    then have "0 < y" by (simp add: y_def)
    then have "of_int (2 ^ 52) \<le> y" using lo by simp
    then show ?thesis by (rule rte_lower)
  qed
  have n: "x < 0 \<Longrightarrow> rte y \<le> - (2 ^ 52)"
  proof -
    assume "x < 0"
    then have "y < 0" by (simp add: y_def divide_neg_pos)
    then have "y \<le> of_int (- (2 ^ 52))" using lo by simp
    then show ?thesis by (rule rte_upper)
  qed
  show "\<bar>rte (x / ulp x)\<bar> \<le> 2 ^ 53" using a b by (simp add: y_def)
  show "0 < x \<Longrightarrow> 2 ^ 52 \<le> rte (x / ulp x)" using p by (simp add: y_def)
  show "x < 0 \<Longrightarrow> rte (x / ulp x) \<le> - (2 ^ 52)" using n by (simp add: y_def)
  show "2 ^ 52 \<le> \<bar>rte (x / ulp x)\<bar>" using p n assms unfolding y_def by (cases "0 < x") auto
qed

lemma rnd64_in_F64: "rnd64 x \<in> F64"
proof (cases "x = 0")
  case True
  then show ?thesis using F64_I[of 0 0] by simp
next
  case False
  let ?m = "rte (x / ulp x)"
  have b: "\<bar>?m\<bar> \<le> 2 ^ 53" using rte_scaled(1)[OF False] .
  show ?thesis
  proof (cases "\<bar>?m\<bar> < 2 ^ 53")
    case True
    then show ?thesis using False F64_I[OF True, of "expo x - 52"] by (simp add: rnd64_def ulp_def)
  next
    case f: False
    then have "\<bar>?m\<bar> = 2 ^ 53" using b by simp
    then consider "?m = 2 ^ 53" | "?m = - (2 ^ 53)" by linarith
    then show ?thesis
    proof cases
      case 1
      have "rnd64 x = of_int 1 * 2 powi (expo x + 1)"
        using False 1 by (simp add: rnd64_def ulp_def power_int_diff power_int_add)
      then show ?thesis using F64_I[of 1 "expo x + 1"] by simp
    next
      case 2
      have "rnd64 x = of_int (- 1) * 2 powi (expo x + 1)"
        using False 2 by (simp add: rnd64_def ulp_def power_int_diff power_int_add)
      then show ?thesis using F64_I[of "- 1" "expo x + 1"] by simp
    qed
  qed
qed

lemma rnd64_id:
  assumes "x \<in> F64"
  shows "rnd64 x = x"
proof (cases "x = 0")
  case True
  then show ?thesis by simp
next
  case False
  from assms obtain m k where x: "x = of_int m * 2 powi k" and m: "\<bar>m\<bar> < 2 ^ 53"
    by (auto simp: F64_def)
  have "\<bar>x\<bar> = of_int \<bar>m\<bar> * 2 powi k" by (simp add: x abs_mult)
  also have "\<dots> < 2 ^ 53 * 2 powi k"
  proof -
    have "(of_int \<bar>m\<bar> :: real) < of_int (2 ^ 53)" using m by (simp only: of_int_less_iff)
    then show ?thesis by simp
  qed
  also have "\<dots> = 2 powi (k + 53)" by (simp add: power_int_add)
  finally have "\<bar>x\<bar> < 2 powi (k + 53)" .
  moreover have "2 powi expo x \<le> \<bar>x\<bar>" by (rule expo_bounds(1)[OF False])
  ultimately have "(2::real) powi expo x < 2 powi (k + 53)" by linarith
  have "expo x < k + 53"
  proof (rule ccontr)
    assume "\<not> expo x < k + 53"
    then have "k + 53 \<le> expo x" by simp
    then have "(2::real) powi (k + 53) \<le> 2 powi expo x"
      by (intro power_int_increasing) simp_all
    with \<open>(2::real) powi expo x < 2 powi (k + 53)\<close> show False by linarith
  qed
  then have "0 \<le> k - (expo x - 52)" by simp
  then obtain n where n: "k - (expo x - 52) = int n"
    using zero_le_imp_eq_int by blast
  have "x / ulp x = of_int m * 2 powi (k - (expo x - 52))"
    by (simp add: x ulp_def power_int_diff)
  also have "\<dots> = of_int (m * 2 ^ n)" by (simp add: n)
  finally have "rte (x / ulp x) = m * 2 ^ n" by (simp only: rte_of_int)
  then have "rnd64 x = of_int m * (2 ^ n * ulp x)" using False by (simp add: rnd64_def)
  also have "2 ^ n * ulp x = 2 powi (int n + (expo x - 52))" 
    by (simp add: ulp_def power_int_add)
  also have "int n + (expo x - 52) = k" using n by simp
  finally show ?thesis by (simp add: x)
qed

lemma rnd64_pos: "0 < x \<Longrightarrow> 0 < rnd64 x"
proof -
  assume h: "0 < x"
  then have "x \<noteq> 0" by simp
  from rte_scaled(3)[OF this h] have "0 < rte (x / ulp x)" by simp
  then show ?thesis using h by (simp add: rnd64_def)
qed

lemma expo_minus [simp]: "expo (- x) = expo x"
  by (simp add: expo_def)

lemma ulp_minus [simp]: "ulp (- x) = ulp x"
  by (simp add: ulp_def)

lemma rnd64_minus: "rnd64 (- x) = - rnd64 x"
  by (simp add: rnd64_def rte_minus)

lemma rnd64_neg: "x < 0 \<Longrightarrow> rnd64 x < 0"
  using rnd64_pos[of "- x"] by (simp add: rnd64_minus)

lemma rnd64_eq_0_iff [simp]: "rnd64 x = 0 \<longleftrightarrow> x = 0"
  using rnd64_pos[of x] rnd64_neg[of x] by (cases "x = 0"; cases "0 < x") auto

lemma rnd64_nonneg: "0 \<le> x \<Longrightarrow> 0 \<le> rnd64 x"
  using rnd64_pos[of x] by (cases "x = 0") auto

lemma rnd64_pos_bounds:
  assumes "0 < x"
  shows "2 powi expo x \<le> rnd64 x" and "rnd64 x \<le> 2 powi (expo x + 1)"
proof -
  have nz: "x \<noteq> 0" using assms by simp
  let ?m = "rte (x / ulp x)"
  have lo: "2 ^ 52 \<le> ?m" using rte_scaled(3)[OF nz assms] .
  have hi: "?m \<le> 2 ^ 53" using rte_scaled(1)[OF nz] by simp
  have r: "rnd64 x = of_int ?m * ulp x" using nz by (simp add: rnd64_def)
  have "(2::real) powi expo x = 2 ^ 52 * ulp x" by (simp add: ulp_def power_int_diff)
  also have "\<dots> \<le> of_int ?m * ulp x"
  proof (rule mult_right_mono)
    have "(of_int (2 ^ 52) :: real) \<le> of_int ?m" using lo by (simp only: of_int_le_iff)
    then show "(2::real) ^ 52 \<le> of_int ?m" by simp
  qed simp
  finally show "2 powi expo x \<le> rnd64 x" by (simp add: r)
  have "of_int ?m * ulp x \<le> 2 ^ 53 * ulp x"
  proof (rule mult_right_mono)
    have "(of_int ?m :: real) \<le> of_int (2 ^ 53)" using hi by (simp only: of_int_le_iff)
    then show "of_int ?m \<le> (2::real) ^ 53" by simp
  qed simp
  also have "\<dots> = 2 powi (expo x + 1)" by (simp add: ulp_def power_int_diff power_int_add)
  finally show "rnd64 x \<le> 2 powi (expo x + 1)" by (simp add: r)
qed

lemma expo_mono: "0 < x \<Longrightarrow> x \<le> y \<Longrightarrow> expo x \<le> expo y"
  unfolding expo_def by (intro floor_mono) simp

lemma rnd64_mono_pos:
  assumes "0 < x" "x \<le> y"
  shows "rnd64 x \<le> rnd64 y"
proof -
  have y: "0 < y" using assms by linarith
  have e: "expo x \<le> expo y" using assms by (rule expo_mono)
  show ?thesis
  proof (cases "expo x = expo y")
    case True
    then have u: "ulp x = ulp y" by (simp add: ulp_def)
    have "x / ulp y \<le> y / ulp y" by (rule divide_right_mono) (use assms in simp_all)
    then have "rte (x / ulp y) \<le> rte (y / ulp y)" by (rule rte_mono)
    then have "(of_int (rte (x / ulp y)) :: real) \<le> of_int (rte (y / ulp y))" by simp
    then have "of_int (rte (x / ulp y)) * ulp y \<le> of_int (rte (y / ulp y)) * ulp y"
      by (rule mult_right_mono) simp
    then show ?thesis using assms(1) y by (simp add: rnd64_def u)
  next
    case False
    then have "expo x + 1 \<le> expo y" using e by simp
    then have "(2::real) powi (expo x + 1) \<le> 2 powi expo y"
      by (intro power_int_increasing) simp_all
    then show ?thesis
      using rnd64_pos_bounds(2)[OF assms(1)] rnd64_pos_bounds(1)[OF y] by linarith
  qed
qed

lemma rnd64_mono: "x \<le> y \<Longrightarrow> rnd64 x \<le> rnd64 y"
proof -
  assume h: "x \<le> y"
  consider "0 < x" | "x = 0" | "x < 0" "0 \<le> y" | "x < 0" "y < 0" by linarith
  then show ?thesis
  proof cases
    case 1
    then show ?thesis using h by (rule rnd64_mono_pos)
  next
    case 2
    then show ?thesis using h rnd64_nonneg[of y] by simp
  next
    case 3
    then show ?thesis using rnd64_neg[of x] rnd64_nonneg[of y] by linarith
  next
    case 4
    then have "rnd64 (- y) \<le> rnd64 (- x)" using h by (intro rnd64_mono_pos) simp_all
    then show ?thesis by (simp add: rnd64_minus)
  qed
qed



lemma rnd64_eval:
  assumes "2 powi k \<le> \<bar>x\<bar>" "\<bar>x\<bar> < 2 powi (k + 1)"
  shows "rnd64 x = of_int (rte (x / 2 powi (k - 52))) * 2 powi (k - 52)"
proof -
  have e: "expo x = k" using assms by (rule expo_eqI)
  have "0 < (2::real) powi k" by simp
  then have "0 < \<bar>x\<bar>" using assms(1) by linarith
  then have "x \<noteq> 0" by auto
  then show ?thesis by (simp add: rnd64_def ulp_def e)
qed


subsection \<open>Representable numbers\<close>

lemma F64_zero [simp]: "0 \<in> F64"
  using F64_I[of 0 0] by simp

lemma F64_of_int: "\<bar>n\<bar> < 2 ^ 53 \<Longrightarrow> of_int n \<in> F64"
  using F64_I[of n 0] by simp

lemma F64_one [simp]: "1 \<in> F64"
  using F64_of_int[of 1] by simp

lemma F64_numeral [simp]: "(numeral n :: int) < 2 ^ 53 \<Longrightarrow> numeral n \<in> F64"
  using F64_of_int[of "numeral n"] by simp

lemma F64_minus [simp]: "x \<in> F64 \<Longrightarrow> - x \<in> F64"
proof -
  assume "x \<in> F64"
  then obtain m k where "x = of_int m * 2 powi k" "\<bar>m\<bar> < 2 ^ 53" by (auto simp: F64_def)
  then have "- x = of_int (- m) * 2 powi k" "\<bar>- m\<bar> < 2 ^ 53" by simp_all
  then show ?thesis using F64_I by metis
qed

lemma F64_abs [simp]: "x \<in> F64 \<Longrightarrow> \<bar>x\<bar> \<in> F64"
  by (cases "0 \<le> x") (simp_all add: abs_if)

lemma F64_sgn [simp]: "sgn (x::real) \<in> F64"
  by (cases "x = 0"; cases "0 < x") (simp_all add: sgn_if)

lemma F64_scale: "x \<in> F64 \<Longrightarrow> x * 2 powi j \<in> F64"
proof -
  assume "x \<in> F64"
  then obtain m k where "x = of_int m * 2 powi k" "\<bar>m\<bar> < 2 ^ 53" by (auto simp: F64_def)
  then have "x * 2 powi j = of_int m * 2 powi (k + j)" by (simp add: power_int_add)
  then show ?thesis using F64_I[OF \<open>\<bar>m\<bar> < 2 ^ 53\<close>] by simp
qed

lemma F64_double [simp]: "x \<in> F64 \<Longrightarrow> 2 * x \<in> F64"
  using F64_scale[of x 1] by (simp add: mult.commute)

lemma F64_half [simp]: "x \<in> F64 \<Longrightarrow> x / 2 \<in> F64"
  using F64_scale[of x "- 1"] by (simp add: power_int_minus field_simps)

subsection \<open>The type of doubles and its arithmetic\<close>

text \<open>
  \<open>val\<close> reads a double as the real number it denotes and \<open>dbl\<close> rounds a real number
  to the nearest double (a Python float literal such as \<^verbatim>\<open>0.5\<close> or \<^verbatim>\<open>1.e-10\<close>). Addition,
  subtraction, multiplication, division and the square root round their exact result;
  negation, absolute value, comparison, \<open>min\<close>, \<open>max\<close> and the sign are exact.
\<close>

typedef double = F64
  morphisms val Abs_double
  by (rule exI[of _ 0]) simp

setup_lifting type_definition_double

lift_definition dbl :: "real \<Rightarrow> double" is rnd64
  by (rule rnd64_in_F64)

instantiation double :: "{zero, one, plus, minus, uminus, times, inverse, abs, linorder}"
begin

lift_definition zero_double :: double is 0
  by simp

lift_definition one_double :: double is 1
  by simp

lift_definition plus_double :: "double \<Rightarrow> double \<Rightarrow> double" is "\<lambda>a b. rnd64 (a + b)"
  by (rule rnd64_in_F64)

lift_definition minus_double :: "double \<Rightarrow> double \<Rightarrow> double" is "\<lambda>a b. rnd64 (a - b)"
  by (rule rnd64_in_F64)

lift_definition times_double :: "double \<Rightarrow> double \<Rightarrow> double" is "\<lambda>a b. rnd64 (a * b)"
  by (rule rnd64_in_F64)

lift_definition divide_double :: "double \<Rightarrow> double \<Rightarrow> double" is "\<lambda>a b. rnd64 (a / b)"
  by (rule rnd64_in_F64)

lift_definition inverse_double :: "double \<Rightarrow> double" is "\<lambda>a. rnd64 (1 / a)"
  by (rule rnd64_in_F64)

lift_definition uminus_double :: "double \<Rightarrow> double" is uminus
  by simp

lift_definition abs_double :: "double \<Rightarrow> double" is abs
  by simp

lift_definition less_eq_double :: "double \<Rightarrow> double \<Rightarrow> bool" is "(\<le>)" .

lift_definition less_double :: "double \<Rightarrow> double \<Rightarrow> bool" is "(<)" .

instance
  by standard (transfer; auto)+

end

lift_definition dsqrt :: "double \<Rightarrow> double" is "\<lambda>a. rnd64 (sqrt a)"
  by (rule rnd64_in_F64)

lift_definition dsign :: "double \<Rightarrow> double" is sgn
  by simp

lemmas val_arith = zero_double.rep_eq one_double.rep_eq plus_double.rep_eq minus_double.rep_eq
  times_double.rep_eq divide_double.rep_eq uminus_double.rep_eq abs_double.rep_eq
  dsqrt.rep_eq dsign.rep_eq dbl.rep_eq

lemmas val_order = less_eq_double.rep_eq less_double.rep_eq

lemma val_F64 [simp]: "val a \<in> F64"
  using val by simp

lemma rnd64_val [simp]: "rnd64 (val a) = val a"
  by (simp add: rnd64_id)

lemma double_eq_iff: "a = b \<longleftrightarrow> val a = val b"
  by (simp add: val_inject)

lemma val_eq_0_iff [simp]: "val a = 0 \<longleftrightarrow> a = 0"
  by (simp add: double_eq_iff val_arith)

lemma val_max: "val (max a b) = max (val a) (val b)"
  by (simp add: max_def val_order)

lemma val_min: "val (min a b) = min (val a) (val b)"
  by (simp add: min_def val_order)

lemma val_dbl: "x \<in> F64 \<Longrightarrow> val (dbl x) = x"
  by (simp add: val_arith rnd64_id)

lemma dbl_val [simp]: "dbl (val a) = a"
  by (simp add: double_eq_iff val_arith)

lemma dbl_0 [simp]: "dbl 0 = 0"
  by (simp add: double_eq_iff val_arith)

lemma dbl_1 [simp]: "dbl 1 = 1"
  by (simp add: double_eq_iff val_arith rnd64_id)

lemma dadd_0 [simp]: "a + 0 = (a::double)" "0 + a = a"
  by (simp_all add: double_eq_iff val_arith)

lemma dsub_0 [simp]: "a - 0 = (a::double)"
  by (simp add: double_eq_iff val_arith)

lemma dsub_self [simp]: "a - a = (0::double)"
  by (simp add: double_eq_iff val_arith)

lemma dmul_0 [simp]: "a * 0 = (0::double)" "0 * a = 0"
  by (simp_all add: double_eq_iff val_arith)

lemma dmul_1 [simp]: "a * 1 = (a::double)" "1 * a = a"
  by (simp_all add: double_eq_iff val_arith)

lemma ddiv_0 [simp]: "0 / a = (0::double)"
  by (simp add: double_eq_iff val_arith)

lemma ddiv_1 [simp]: "a / 1 = (a::double)"
  by (simp add: double_eq_iff val_arith)

lemma dabs_0 [simp]: "\<bar>0::double\<bar> = 0"
  by (simp add: double_eq_iff val_arith)

lemma dsign_0 [simp]: "dsign 0 = 0"
  by (simp add: double_eq_iff val_arith)

lemma dsqrt_0 [simp]: "dsqrt 0 = 0"
  by (simp add: double_eq_iff val_arith)

lemma dsqrt_1 [simp]: "dsqrt 1 = 1"
  by (simp add: double_eq_iff val_arith rnd64_id)

lemma val_two_times: "val (dbl 2 * a) = 2 * val a"
  by (simp add: val_arith rnd64_id)


lemma val_sign_times: "val (dsign c * m) = sgn (val c) * val m"
  by (cases "val c = 0"; cases "0 < val c") (simp_all add: val_arith sgn_if rnd64_id)



subsection \<open>Computing with representable numbers\<close>

text \<open>
  When the operands and the exact result are representable, an operation on doubles is the
  operation on the reals: the rules \<open>dbl_eval\<close> compute such expressions.
\<close>

lemma dbl_plus: "x \<in> F64 \<Longrightarrow> y \<in> F64 \<Longrightarrow> x + y \<in> F64 \<Longrightarrow> dbl x + dbl y = dbl (x + y)"
  by (simp add: double_eq_iff val_arith rnd64_id)

lemma dbl_minus: "x \<in> F64 \<Longrightarrow> y \<in> F64 \<Longrightarrow> x - y \<in> F64 \<Longrightarrow> dbl x - dbl y = dbl (x - y)"
  by (simp add: double_eq_iff val_arith rnd64_id)

lemma dbl_times: "x \<in> F64 \<Longrightarrow> y \<in> F64 \<Longrightarrow> x * y \<in> F64 \<Longrightarrow> dbl x * dbl y = dbl (x * y)"
  by (simp add: double_eq_iff val_arith rnd64_id)

lemma dbl_divide: "x \<in> F64 \<Longrightarrow> y \<in> F64 \<Longrightarrow> x / y \<in> F64 \<Longrightarrow> dbl x / dbl y = dbl (x / y)"
  by (simp add: double_eq_iff val_arith rnd64_id)

lemma dbl_uminus: "x \<in> F64 \<Longrightarrow> - dbl x = dbl (- x)"
  by (simp add: double_eq_iff val_arith rnd64_id)

lemma dbl_abs: "x \<in> F64 \<Longrightarrow> \<bar>dbl x\<bar> = dbl \<bar>x\<bar>"
  by (simp add: double_eq_iff val_arith rnd64_id)

lemma dbl_sqrt: "x \<in> F64 \<Longrightarrow> sqrt x \<in> F64 \<Longrightarrow> dsqrt (dbl x) = dbl (sqrt x)"
  by (simp add: double_eq_iff val_arith rnd64_id)

lemma dbl_sign: "x \<in> F64 \<Longrightarrow> dsign (dbl x) = dbl (sgn x)"
  by (simp add: double_eq_iff val_arith rnd64_id)

lemma dbl_eq_iff: "x \<in> F64 \<Longrightarrow> y \<in> F64 \<Longrightarrow> dbl x = dbl y \<longleftrightarrow> x = y"
  by (simp add: double_eq_iff val_arith rnd64_id)

lemma dbl_le_iff: "x \<in> F64 \<Longrightarrow> y \<in> F64 \<Longrightarrow> dbl x \<le> dbl y \<longleftrightarrow> x \<le> y"
  by (simp add: val_order val_arith rnd64_id)

lemma dbl_less_iff: "x \<in> F64 \<Longrightarrow> y \<in> F64 \<Longrightarrow> dbl x < dbl y \<longleftrightarrow> x < y"
  by (simp add: val_order val_arith rnd64_id)

lemma zero_dbl: "0 = dbl 0"
  by simp

lemma one_dbl: "1 = dbl 1"
  by simp

lemma F64_quarter [simp]: "x \<in> F64 \<Longrightarrow> x / 4 \<in> F64"
  using F64_half[OF F64_half[of x]] by simp

lemmas dbl_eval = zero_dbl one_dbl dbl_plus dbl_minus dbl_times dbl_divide dbl_uminus dbl_abs dbl_sqrt
  dbl_sign dbl_eq_iff dbl_le_iff dbl_less_iff

lemma double_one_neq_zero [simp]: "(1::double) \<noteq> 0"
  by (simp add: double_eq_iff val_arith)

section \<open>Faults, indices and arrays\<close>

text \<open>
  A call either returns its arrays or stops with a fault. \<open>IndexError\<close> and \<open>ValueError\<close> are
  the exceptions of Python and NumPy for an index out of range and for operands whose shapes
  do not match. \<open>ZeroDivisionError\<close> is raised by a scalar float division by zero inside a
  \<^verbatim>\<open>@njit\<close> function (Numba's default error model). \<open>NaN\<close> is no exception: it marks a
  computation that leaves the real numbers (the square root of a negative number, a NumPy
  array division by zero), after which the Python code goes on with NaN or infinite values
  that this model does not follow.

  So a result \<open>Inr\<close> says more than that the Python call returns: it says that it returns
  and that every value computed on the way is a real number. A result \<open>Inl NaN\<close> says
  nothing about the call, which may return an array holding NaN or infinite entries, return
  a finite array, or raise later. Statements about one interface or one cell are therefore
  made on the function of that interface or cell, under hypotheses on its own inputs.
\<close>

datatype fault = IndexError | ZeroDivisionError | ValueError | NaN

definition bnd :: "fault + 'a \<Rightarrow> ('a \<Rightarrow> fault + 'b) \<Rightarrow> fault + 'b" where
  "bnd m f = (case m of Inl e \<Rightarrow> Inl e | Inr x \<Rightarrow> f x)"

definition pdiv :: "double \<Rightarrow> double \<Rightarrow> fault + double" where
  "pdiv a b = (if b = 0 then Inl ZeroDivisionError else Inr (a / b))"

definition psqrt :: "double \<Rightarrow> fault + double" where
  "psqrt a = (if a < 0 then Inl NaN else Inr (dsqrt a))"

text \<open>Python indexing of an axis of length \<open>n\<close>: a negative index counts from the end.\<close>

definition py_index :: "nat \<Rightarrow> int \<Rightarrow> fault + nat" where
  "py_index n i =
     (if 0 \<le> i \<and> i < int n then Inr (nat i)
      else if - int n \<le> i \<and> i < 0 then Inr (nat (i + int n))
      else Inl IndexError)"

text \<open>A slice bound is clipped to the axis, never an error.\<close>

definition slice_pos :: "nat \<Rightarrow> int \<Rightarrow> nat" where
  "slice_pos n i = (if i < 0 then nat (max 0 (i + int n)) else min (nat i) n)"

text \<open>\<^verbatim>\<open>F[lo:hi] = g\<close> for a one-dimensional array \<open>F\<close>, the right-hand side given by position.\<close>

definition set_slice :: "double list \<Rightarrow> int \<Rightarrow> int \<Rightarrow> (nat \<Rightarrow> double) \<Rightarrow> double list" where
  "set_slice F lo hi g =
     map (\<lambda>k. if slice_pos (length F) lo \<le> k \<and> k < slice_pos (length F) hi then g k else F ! k)
       [0..<length F]"

text \<open>
  The variable layout: the slots of density, momenta, energy, field components and of the
  first species in a state vector, as the integers the Python functions are called with.
  \<open>slots\<close> holds the six scalar slots resolved against the length of a state vector; the
  species slot is only ever used as a slice bound.
\<close>

record layout =
  idens :: int
  ixmom :: int
  iymom :: int
  iener :: int
  ixmag :: int
  iymag :: int
  irhoX :: int

record slots =
  sdens :: nat
  sxmom :: nat
  symom :: nat
  sener :: nat
  sxmag :: nat
  symag :: nat

definition resolve :: "nat \<Rightarrow> layout \<Rightarrow> fault + slots" where
  "resolve n lay =
     bnd (py_index n (idens lay)) (\<lambda>d.
     bnd (py_index n (ixmom lay)) (\<lambda>mx.
     bnd (py_index n (iymom lay)) (\<lambda>my.
     bnd (py_index n (iener lay)) (\<lambda>e.
     bnd (py_index n (ixmag lay)) (\<lambda>bx.
     bnd (py_index n (iymag lay)) (\<lambda>by.
       Inr \<lparr>sdens = d, sxmom = mx, symom = my, sener = e, sxmag = bx, symag = by\<rparr>))))))"

text \<open>
  Two- and three-dimensional arrays: the shape and the elements by position (positions
  outside the shape are never read). \<open>cell A i j\<close> is the state vector \<^verbatim>\<open>A[i, j, :]\<close>.
\<close>

record arr2 =
  qx2 :: nat
  qy2 :: nat
  elem2 :: "nat \<Rightarrow> nat \<Rightarrow> double"

record arr3 =
  qx3 :: nat
  qy3 :: nat
  nvar3 :: nat
  elem3 :: "nat \<Rightarrow> nat \<Rightarrow> nat \<Rightarrow> double"

definition zeros2 :: "nat \<Rightarrow> nat \<Rightarrow> arr2" where
  "zeros2 qx qy = \<lparr>qx2 = qx, qy2 = qy, elem2 = (\<lambda>i j. 0)\<rparr>"

definition zeros3 :: "nat \<Rightarrow> nat \<Rightarrow> nat \<Rightarrow> arr3" where
  "zeros3 qx qy nvar = \<lparr>qx3 = qx, qy3 = qy, nvar3 = nvar, elem3 = (\<lambda>i j k. 0)\<rparr>"

definition cell :: "arr3 \<Rightarrow> nat \<Rightarrow> nat \<Rightarrow> double list" where
  "cell A i j = map (elem3 A i j) [0..<nvar3 A]"

definition set_cell :: "arr3 \<Rightarrow> nat \<Rightarrow> nat \<Rightarrow> double list \<Rightarrow> arr3" where
  "set_cell A i j v =
     A\<lparr>elem3 := (elem3 A)(i := (elem3 A i)(j := (\<lambda>k. if k < length v then v ! k else elem3 A i j k)))\<rparr>"

definition set_elem3 :: "arr3 \<Rightarrow> nat \<Rightarrow> nat \<Rightarrow> nat \<Rightarrow> double \<Rightarrow> arr3" where
  "set_elem3 A i j k x = A\<lparr>elem3 := (elem3 A)(i := (elem3 A i)(j := (elem3 A i j)(k := x)))\<rparr>"

definition set_elem2 :: "arr2 \<Rightarrow> nat \<Rightarrow> nat \<Rightarrow> double \<Rightarrow> arr2" where
  "set_elem2 A i j x = A\<lparr>elem2 := (elem2 A)(i := (elem2 A i)(j := x))\<rparr>"

text \<open>
  \<^verbatim>\<open>for i in range(lo, hi): body\<close>, the loop state threaded through the iterations; a
  fault in an iteration ends the loop. \<open>for_loop n lo\<close> runs the \<open>n\<close> iterations that start
  at \<open>lo\<close>.
\<close>

primrec for_loop :: "nat \<Rightarrow> int \<Rightarrow> (int \<Rightarrow> 's \<Rightarrow> fault + 's) \<Rightarrow> 's \<Rightarrow> fault + 's" where
  "for_loop 0 lo body s = Inr s"
| "for_loop (Suc n) lo body s = bnd (body lo s) (for_loop n (lo + 1) body)"

definition for_range :: "int \<Rightarrow> int \<Rightarrow> (int \<Rightarrow> 's \<Rightarrow> fault + 's) \<Rightarrow> 's \<Rightarrow> fault + 's" where
  "for_range lo hi body s = for_loop (nat (hi - lo)) lo body s"

text \<open>The nested loop \<^verbatim>\<open>for i in range(ilo, ihi): for j in range(jlo, jhi): body\<close>.\<close>

definition for2 ::
  "int \<Rightarrow> int \<Rightarrow> int \<Rightarrow> int \<Rightarrow> (int \<Rightarrow> int \<Rightarrow> 's \<Rightarrow> fault + 's) \<Rightarrow> 's \<Rightarrow> fault + 's" where
  "for2 ilo ihi jlo jhi body s = for_range ilo ihi (\<lambda>i. for_range jlo jhi (body i)) s"

text \<open>
  \<^verbatim>\<open>E[:, :] = A\<close> for a target of shape \<open>(qx, qy)\<close>: NumPy broadcasts an axis of length one
  and refuses any other mismatch.
\<close>

definition broadcast2 :: "nat \<Rightarrow> nat \<Rightarrow> arr2 \<Rightarrow> fault + arr2" where
  "broadcast2 qx qy A =
     (if (qx2 A = qx \<or> qx2 A = 1) \<and> (qy2 A = qy \<or> qy2 A = 1)
      then Inr \<lparr>qx2 = qx, qy2 = qy,
                elem2 = (\<lambda>i j. elem2 A (if qx2 A = qx then i else 0) (if qy2 A = qy then j else 0))\<rparr>
      else Inl ValueError)"

section \<open>The conservative flux\<close>

text \<open>
  \<^verbatim>\<open>consFlux(idir, gamma, idens, ixmom, iymom, iener, ixmag, iymag, irhoX, naux, U_state)\<close>.
  The six scalar slots are resolved on entry; the assignments to \<^verbatim>\<open>F\<close> follow in the order
  of the source, so that a later assignment to the same slot wins.
\<close>

definition half :: double where
  "half = dbl (1 / 2)"

definition consFlux :: "int \<Rightarrow> double \<Rightarrow> layout \<Rightarrow> int \<Rightarrow> double list \<Rightarrow> fault + double list" where
  "consFlux idir gamma lay naux U =
     bnd (resolve (length U) lay) (\<lambda>s.
     bnd (pdiv (U ! sxmom s) (U ! sdens s)) (\<lambda>u.
     bnd (pdiv (U ! symom s) (U ! sdens s)) (\<lambda>v.
       let bx = U ! sxmag s;
           by = U ! symag s;
           b2 = bx * bx + by * by;
           p = (U ! sener s - half * U ! sdens s * (u * u + v * v) - half * b2) * (gamma - 1);
           F = replicate (length U) 0
       in if idir = 1 then
            (let F = F[sdens s := U ! sdens s * u];
                 F = F[sxmom s := U ! sxmom s * u + p + half * b2 - bx * bx];
                 F = F[symom s := U ! symom s * u - bx * by];
                 F = F[sener s := (U ! sener s + p + half * b2) * u - bx * (bx * u + by * v)];
                 F = F[sxmag s := 0];
                 F = F[symag s := by * u - bx * v]
             in Inr (if 0 < naux
                     then set_slice F (irhoX lay) (irhoX lay + naux) (\<lambda>k. U ! k * u)
                     else F))
          else
            (let F = F[sdens s := U ! sdens s * v];
                 F = F[sxmom s := U ! sxmom s * v - bx * by];
                 F = F[symom s := U ! symom s * v + p + half * b2 - by * by];
                 F = F[sener s := (U ! sener s + p + half * b2) * v - by * (bx * u + by * v)];
                 F = F[sxmag s := bx * v - by * u];
                 F = F[symag s := 0]
             in Inr (if 0 < naux
                     then set_slice F (irhoX lay) (irhoX lay + naux) (\<lambda>k. U ! k * v)
                     else F)))))"

text \<open>
  The layout of a run with one species: density, momenta, energy, field components and the
  species in slots 0 to 6.
\<close>

definition lay7 :: layout where
  "lay7 = \<lparr>idens = 0, ixmom = 1, iymom = 2, iener = 3, ixmag = 4, iymag = 5, irhoX = 6\<rparr>"

definition slots7 :: slots where
  "slots7 = \<lparr>sdens = 0, sxmom = 1, symom = 2, sener = 3, sxmag = 4, symag = 5\<rparr>"

text \<open>
  The slot of the sweep-normal field component (\<^verbatim>\<open>ixmag\<close> for \<^verbatim>\<open>idir == 1\<close>, \<^verbatim>\<open>iymag\<close>
  otherwise), and the positions that the species slice \<^verbatim>\<open>irhoX:irhoX + naux\<close> covers.
\<close>

definition normal_slot :: "int \<Rightarrow> slots \<Rightarrow> nat" where
  "normal_slot idir s = (if idir = 1 then sxmag s else symag s)"

definition in_species_block :: "nat \<Rightarrow> layout \<Rightarrow> int \<Rightarrow> nat \<Rightarrow> bool" where
  "in_species_block n lay naux k \<longleftrightarrow>
     0 < naux \<and> slice_pos n (irhoX lay) \<le> k \<and> k < slice_pos n (irhoX lay + naux)"

section \<open>Reconstruction of the interface states\<close>

text \<open>
  \<^verbatim>\<open>states(idir, ng, dx, dt, irho, iu, iv, ip, ibx, iby, ix, nspec, gamma, qv, Bx, By)\<close>.
  Of its parameters the function reads \<^verbatim>\<open>idir\<close>, \<^verbatim>\<open>ng\<close>, \<^verbatim>\<open>ibx\<close>, \<^verbatim>\<open>iby\<close> and
  \<^verbatim>\<open>qv\<close> only; the model takes these.

  The one-sided and centred differences are whole-array assignments on the slice
  \<^verbatim>\<open>[1:-1]\<close> of the sweep axis, zero elsewhere:
  \<^verbatim>\<open>dq_l[1:-1] = qv[1:-1] - qv[:-2]\<close>, \<^verbatim>\<open>dq_r[1:-1] = qv[2:] - qv[1:-1]\<close>,
  \<^verbatim>\<open>dq_c[1:-1] = 0.5 * (qv[2:] - qv[:-2])\<close>.
\<close>

definition dq_l :: "int \<Rightarrow> arr3 \<Rightarrow> nat \<Rightarrow> nat \<Rightarrow> nat \<Rightarrow> double" where
  "dq_l idir qv i j k =
     (if idir = 1
      then (if 1 \<le> i \<and> i + 1 < qx3 qv then elem3 qv i j k - elem3 qv (i - 1) j k else 0)
      else (if 1 \<le> j \<and> j + 1 < qy3 qv then elem3 qv i j k - elem3 qv i (j - 1) k else 0))"

definition dq_r :: "int \<Rightarrow> arr3 \<Rightarrow> nat \<Rightarrow> nat \<Rightarrow> nat \<Rightarrow> double" where
  "dq_r idir qv i j k =
     (if idir = 1
      then (if 1 \<le> i \<and> i + 1 < qx3 qv then elem3 qv (i + 1) j k - elem3 qv i j k else 0)
      else (if 1 \<le> j \<and> j + 1 < qy3 qv then elem3 qv i (j + 1) k - elem3 qv i j k else 0))"

definition dq_c :: "int \<Rightarrow> arr3 \<Rightarrow> nat \<Rightarrow> nat \<Rightarrow> nat \<Rightarrow> double" where
  "dq_c idir qv i j k =
     (if idir = 1
      then (if 1 \<le> i \<and> i + 1 < qx3 qv
            then half * (elem3 qv (i + 1) j k - elem3 qv (i - 1) j k) else 0)
      else (if 1 \<le> j \<and> j + 1 < qy3 qv
            then half * (elem3 qv i (j + 1) k - elem3 qv i (j - 1) k) else 0))"

text \<open>
  The monotonicity constraint,
  \<^verbatim>\<open>np.sign(dq_c) * np.minimum(2. * np.abs(dq_l), np.minimum(2. * np.abs(dq_r), np.abs(dq_c)))\<close>,
  on one element, and the array \<^verbatim>\<open>dq\<close> it gives, before and after the component of the
  sweep-normal field (position \<open>nb\<close>) is set to zero.
\<close>

definition limiter :: "double \<Rightarrow> double \<Rightarrow> double \<Rightarrow> double" where
  "limiter l r c = dsign c * min (dbl 2 * \<bar>l\<bar>) (min (dbl 2 * \<bar>r\<bar>) \<bar>c\<bar>)"

definition dq_lim :: "int \<Rightarrow> arr3 \<Rightarrow> nat \<Rightarrow> nat \<Rightarrow> nat \<Rightarrow> double" where
  "dq_lim idir qv i j k = limiter (dq_l idir qv i j k) (dq_r idir qv i j k) (dq_c idir qv i j k)"

definition dq :: "int \<Rightarrow> nat \<Rightarrow> arr3 \<Rightarrow> nat \<Rightarrow> nat \<Rightarrow> nat \<Rightarrow> double" where
  "dq idir nb qv i j k = (if k = nb then 0 else dq_lim idir qv i j k)"

text \<open>
  One iteration of the loop over \<^verbatim>\<open>range(ilo - 3, ihi + 3)\<close> and
  \<^verbatim>\<open>range(jlo - 3, jhi + 3)\<close>; the loop state is the pair \<open>(q_l, q_r)\<close>.
\<close>

definition states_body ::
  "int \<Rightarrow> nat \<Rightarrow> arr3 \<Rightarrow> int \<Rightarrow> int \<Rightarrow> arr3 \<times> arr3 \<Rightarrow> fault + arr3 \<times> arr3" where
  "states_body idir nb qv i j Q =
     bnd (py_index (qx3 qv) i) (\<lambda>a.
     bnd (py_index (qy3 qv) j) (\<lambda>b.
       let plus = map (\<lambda>k. elem3 qv a b k + half * dq idir nb qv a b k) [0..<nvar3 qv];
           minus = map (\<lambda>k. elem3 qv a b k - half * dq idir nb qv a b k) [0..<nvar3 qv]
       in if idir = 1
          then bnd (py_index (qx3 qv) (i + 1)) (\<lambda>a1.
                 Inr (set_cell (fst Q) a1 b plus, set_cell (snd Q) a b minus))
          else bnd (py_index (qy3 qv) (j + 1)) (\<lambda>b1.
                 Inr (set_cell (fst Q) a b1 plus, set_cell (snd Q) a b minus))))"

definition states :: "int \<Rightarrow> int \<Rightarrow> int \<Rightarrow> int \<Rightarrow> arr3 \<Rightarrow> fault + arr3 \<times> arr3" where
  "states idir ng ibx iby qv =
     (let qx = qx3 qv; qy = qy3 qv; nvar = nvar3 qv;
          nx = int qx - 2 * ng; ny = int qy - 2 * ng;
          ilo = ng; ihi = ng + nx; jlo = ng; jhi = ng + ny
      in bnd (py_index nvar (if idir = 1 then ibx else iby)) (\<lambda>nb.
           for2 (ilo - 3) (ihi + 3) (jlo - 3) (jhi + 3) (states_body idir nb qv)
             (zeros3 qx qy nvar, zeros3 qx qy nvar)))"

text \<open>A spatially uniform field: every cell holds the state vector \<open>c\<close>.\<close>

definition uniform :: "arr3 \<Rightarrow> (nat \<Rightarrow> double) \<Rightarrow> bool" where
  "uniform qv c \<longleftrightarrow> (\<forall>i<qx3 qv. \<forall>j<qy3 qv. \<forall>k<nvar3 qv. elem3 qv i j k = c k)"

section \<open>The corner electromotive force\<close>

text \<open>
  \<^verbatim>\<open>emf(ng, idens, ixmom, iymom, iener, ixmag, iymag, irhoX, dx, dy, U, Fx, Fy, Eref, use_ref)\<close>.
  The reference field \<^verbatim>\<open>Er\<close> is computed from \<^verbatim>\<open>U\<close> by whole-array operations, or copied from
  \<^verbatim>\<open>Eref\<close>; the edge fields (\<open>E_x\<close>, \<open>E_y\<close> below) are \<^verbatim>\<open>Ex[:, :] = -Fx[:, :, iymag]\<close> and
  \<^verbatim>\<open>Ey[:, :] = Fy[:, :, ixmag]\<close>.

  The array division \<^verbatim>\<open>U[:, :, ixmom] / U[:, :, idens]\<close> raises nothing: in a cell of zero
  density the entry of \<^verbatim>\<open>Er\<close> is infinite or NaN, and the call leaves the model only when a
  loop reads that entry. The reference field is therefore an array of results, one per cell.
\<close>

record ref2 =
  qxr :: nat
  qyr :: nat
  elemr :: "nat \<Rightarrow> nat \<Rightarrow> fault + double"

definition ref_emf :: "layout \<Rightarrow> arr3 \<Rightarrow> arr2 \<Rightarrow> bool \<Rightarrow> fault + ref2" where
  "ref_emf lay U Eref use_ref =
     (if \<not> use_ref then
        bnd (py_index (nvar3 U) (ixmom lay)) (\<lambda>mx.
        bnd (py_index (nvar3 U) (idens lay)) (\<lambda>d.
        bnd (py_index (nvar3 U) (iymom lay)) (\<lambda>my.
        bnd (py_index (nvar3 U) (ixmag lay)) (\<lambda>bx.
        bnd (py_index (nvar3 U) (iymag lay)) (\<lambda>by.
          Inr \<lparr>qxr = qx3 U, qyr = qy3 U,
               elemr = (\<lambda>a b. if elem3 U a b d = 0 then Inl NaN
                              else Inr (- (elem3 U a b mx / elem3 U a b d * elem3 U a b by
                                           - elem3 U a b my / elem3 U a b d * elem3 U a b bx)))\<rparr>)))))
      else
        bnd (broadcast2 (qx3 U) (qy3 U) Eref) (\<lambda>A.
          Inr \<lparr>qxr = qx2 A, qyr = qy2 A, elemr = (\<lambda>a b. Inr (elem2 A a b))\<rparr>))"

text \<open>Reading \<^verbatim>\<open>Er[i, j]\<close> with Python indices.\<close>

definition getr :: "ref2 \<Rightarrow> int \<Rightarrow> int \<Rightarrow> fault + double" where
  "getr R i j = bnd (py_index (qxr R) i) (\<lambda>a. bnd (py_index (qyr R) j) (\<lambda>b. elemr R a b))"

definition edge_x :: "layout \<Rightarrow> nat \<Rightarrow> nat \<Rightarrow> arr3 \<Rightarrow> fault + arr2" where
  "edge_x lay qx qy Fx =
     bnd (py_index (nvar3 Fx) (iymag lay)) (\<lambda>k.
       broadcast2 qx qy \<lparr>qx2 = qx3 Fx, qy2 = qy3 Fx, elem2 = (\<lambda>a b. - elem3 Fx a b k)\<rparr>)"

definition edge_y :: "layout \<Rightarrow> nat \<Rightarrow> nat \<Rightarrow> arr3 \<Rightarrow> fault + arr2" where
  "edge_y lay qx qy Fy =
     bnd (py_index (nvar3 Fy) (ixmag lay)) (\<lambda>k.
       broadcast2 qx qy \<lparr>qx2 = qx3 Fy, qy2 = qy3 Fy, elem2 = (\<lambda>a b. elem3 Fy a b k)\<rparr>)"

text \<open>Reading \<^verbatim>\<open>A[i, j]\<close> and \<^verbatim>\<open>A[i, j, k]\<close> with Python indices.\<close>

definition get2 :: "arr2 \<Rightarrow> int \<Rightarrow> int \<Rightarrow> fault + double" where
  "get2 A i j = bnd (py_index (qx2 A) i) (\<lambda>a. bnd (py_index (qy2 A) j) (\<lambda>b. Inr (elem2 A a b)))"

definition get3 :: "arr3 \<Rightarrow> int \<Rightarrow> int \<Rightarrow> int \<Rightarrow> fault + double" where
  "get3 A i j k =
     bnd (py_index (qx3 A) i) (\<lambda>a. bnd (py_index (qy3 A) j) (\<lambda>b. bnd (py_index (nvar3 A) k) (\<lambda>c.
       Inr (elem3 A a b c))))"

definition put2 :: "arr2 \<Rightarrow> int \<Rightarrow> int \<Rightarrow> double \<Rightarrow> fault + arr2" where
  "put2 A i j x =
     bnd (py_index (qx2 A) i) (\<lambda>a. bnd (py_index (qy2 A) j) (\<lambda>b. Inr (set_elem2 A a b x)))"

definition put3 :: "arr3 \<Rightarrow> int \<Rightarrow> int \<Rightarrow> int \<Rightarrow> double \<Rightarrow> fault + arr3" where
  "put3 A i j k x =
     bnd (py_index (qx3 A) i) (\<lambda>a. bnd (py_index (qy3 A) j) (\<lambda>b. bnd (py_index (nvar3 A) k) (\<lambda>c.
       Inr (set_elem3 A a b c x))))"

text \<open>
  The first loop, over \<^verbatim>\<open>range(ilo - 3, ihi + 3)\<close> and \<^verbatim>\<open>range(jlo - 3, jhi + 3)\<close>: the
  one-sided slopes \<open>(dEdy_14, dEdx_14, dEdy_34, dEdx_34)\<close>.
\<close>

definition slopes_body ::
  "double \<Rightarrow> double \<Rightarrow> ref2 \<Rightarrow> arr2 \<Rightarrow> arr2 \<Rightarrow> int \<Rightarrow> int \<Rightarrow>
     arr2 \<times> arr2 \<times> arr2 \<times> arr2 \<Rightarrow> fault + arr2 \<times> arr2 \<times> arr2 \<times> arr2" where
  "slopes_body dx dy E_r E_x E_y i j D =
     (case D of (dEdy_14, dEdx_14, dEdy_34, dEdx_34) \<Rightarrow>
     bnd (getr E_r i j) (\<lambda>er.
     bnd (get2 E_y i j) (\<lambda>ey.
     bnd (pdiv (dbl 2 * (er - ey)) dy) (\<lambda>y14.
     bnd (put2 dEdy_14 i j y14) (\<lambda>dEdy_14.
     bnd (get2 E_x i j) (\<lambda>ex.
     bnd (pdiv (dbl 2 * (er - ex)) dx) (\<lambda>x14.
     bnd (put2 dEdx_14 i j x14) (\<lambda>dEdx_14.
     bnd (getr E_r i (j - 1)) (\<lambda>er_s.
     bnd (pdiv (dbl 2 * (ey - er_s)) dy) (\<lambda>y34.
     bnd (put2 dEdy_34 i j y34) (\<lambda>dEdy_34.
     bnd (getr E_r (i - 1) j) (\<lambda>er_w.
     bnd (pdiv (dbl 2 * (ex - er_w)) dx) (\<lambda>x34.
     bnd (put2 dEdx_34 i j x34) (\<lambda>dEdx_34.
       Inr (dEdy_14, dEdx_14, dEdy_34, dEdx_34)))))))))))))))"

text \<open>
  The upwind choice of a slope by the sign of a mass flux \<^verbatim>\<open>r\<close>: the value at the upwind
  position for \<^verbatim>\<open>r > 0\<close>, at the cell itself for \<^verbatim>\<open>r < 0\<close>, their mean otherwise.
\<close>

definition upwind :: "double \<Rightarrow> fault + double \<Rightarrow> fault + double \<Rightarrow> fault + double" where
  "upwind r up here =
     (if 0 < r then up
      else if r < 0 then here
      else bnd up (\<lambda>a. bnd here (\<lambda>b. Inr (half * (a + b)))))"

text \<open>The second loop, over \<^verbatim>\<open>range(ilo - 2, ihi + 2)\<close> and \<^verbatim>\<open>range(jlo - 2, jhi + 2)\<close>.\<close>

definition corner_body ::
  "layout \<Rightarrow> double \<Rightarrow> double \<Rightarrow> arr3 \<Rightarrow> arr3 \<Rightarrow> arr2 \<Rightarrow> arr2 \<Rightarrow>
     arr2 \<times> arr2 \<times> arr2 \<times> arr2 \<Rightarrow> int \<Rightarrow> int \<Rightarrow> arr2 \<Rightarrow> fault + arr2" where
  "corner_body lay dx dy Fx Fy E_x E_y D i j E_c =
     (case D of (dEdy_14, dEdx_14, dEdy_34, dEdx_34) \<Rightarrow>
     bnd (get3 Fx i j (idens lay)) (\<lambda>ru.
     bnd (upwind ru (get2 dEdy_14 (i - 1) j) (get2 dEdy_14 i j)) (\<lambda>dEdyx_14.
     bnd (get3 Fx i (j - 1) (idens lay)) (\<lambda>ru.
     bnd (upwind ru (get2 dEdy_34 (i - 1) j) (get2 dEdy_34 i j)) (\<lambda>dEdyx_34.
     bnd (get3 Fy i j (idens lay)) (\<lambda>rv.
     bnd (upwind rv (get2 dEdx_14 i (j - 1)) (get2 dEdx_14 i j)) (\<lambda>dEdxy_14.
     bnd (get3 Fy (i - 1) j (idens lay)) (\<lambda>rv.
     bnd (upwind rv (get2 dEdx_34 i (j - 1)) (get2 dEdx_34 i j)) (\<lambda>dEdxy_34.
     bnd (get2 E_x i j) (\<lambda>ex.
     bnd (get2 E_x i (j + 1)) (\<lambda>ex_n.
     bnd (get2 E_y i j) (\<lambda>ey.
     bnd (get2 E_y (i + 1) j) (\<lambda>ey_e.
       put2 E_c i j
         (dbl (1 / 4) * (ex + ex_n + ey + ey_e)
            + dbl (1 / 8) * dy * (dEdyx_14 - dEdyx_34)
            + dbl (1 / 8) * dx * (dEdxy_14 - dEdxy_34)))))))))))))))"

definition emf ::
  "int \<Rightarrow> layout \<Rightarrow> double \<Rightarrow> double \<Rightarrow> arr3 \<Rightarrow> arr3 \<Rightarrow> arr3 \<Rightarrow> arr2 \<Rightarrow> bool \<Rightarrow> fault + arr2" where
  "emf ng lay dx dy U Fx Fy Eref use_ref =
     (let qx = qx3 U; qy = qy3 U;
          nx = int qx - 2 * ng; ny = int qy - 2 * ng;
          ilo = ng; ihi = ng + nx; jlo = ng; jhi = ng + ny
      in bnd (ref_emf lay U Eref use_ref) (\<lambda>E_r.
         bnd (edge_x lay qx qy Fx) (\<lambda>E_x.
         bnd (edge_y lay qx qy Fy) (\<lambda>E_y.
         bnd (for2 (ilo - 3) (ihi + 3) (jlo - 3) (jhi + 3) (slopes_body dx dy E_r E_x E_y)
                (zeros2 qx qy, zeros2 qx qy, zeros2 qx qy, zeros2 qx qy)) (\<lambda>D.
           for2 (ilo - 2) (ihi + 2) (jlo - 2) (jhi + 2) (corner_body lay dx dy Fx Fy E_x E_y D)
             (zeros2 qx qy))))))"

section \<open>The magnetic source terms\<close>

text \<open>
  \<^verbatim>\<open>sources(idir, ng, idens, ixmom, iymom, iener, ixmag, iymag, irhoX, dx, U, Ux)\<close>. The
  function is not compiled by Numba: a division of a NumPy scalar by zero gives an infinite
  value or a NaN and no exception.
\<close>

definition npdiv :: "double \<Rightarrow> double \<Rightarrow> fault + double" where
  "npdiv a b = (if b = 0 then Inl NaN else Inr (a / b))"

definition sources_body ::
  "int \<Rightarrow> layout \<Rightarrow> double \<Rightarrow> arr3 \<Rightarrow> arr3 \<Rightarrow> int \<Rightarrow> int \<Rightarrow> arr3 \<Rightarrow> fault + arr3" where
  "sources_body idir lay dx U Ux i j S =
     (if idir = 1 then
        bnd (get3 U i j (ixmag lay)) (\<lambda>bx.
        bnd (get3 Ux (i + 1) j (ixmag lay)) (\<lambda>hi.
        bnd (get3 Ux i j (ixmag lay)) (\<lambda>lo.
        bnd (npdiv (bx * (hi - lo)) dx) (\<lambda>sx.
        bnd (put3 S i j (ixmom lay) sx) (\<lambda>S.
        bnd (get3 U i j (iymag lay)) (\<lambda>by.
        bnd (npdiv (by * (hi - lo)) dx) (\<lambda>sy.
          put3 S i j (iymom lay) sy)))))))
      else
        bnd (get3 U i j (ixmag lay)) (\<lambda>bx.
        bnd (get3 Ux i (j + 1) (iymag lay)) (\<lambda>hi.
        bnd (get3 Ux i j (iymag lay)) (\<lambda>lo.
        bnd (npdiv (bx * (hi - lo)) dx) (\<lambda>sx.
        bnd (put3 S i j (ixmom lay) sx) (\<lambda>S.
        bnd (get3 U i j (iymag lay)) (\<lambda>by.
        bnd (npdiv (by * (hi - lo)) dx) (\<lambda>sy.
          put3 S i j (iymom lay) sy))))))))"

definition sources :: "int \<Rightarrow> int \<Rightarrow> layout \<Rightarrow> double \<Rightarrow> arr3 \<Rightarrow> arr3 \<Rightarrow> fault + arr3" where
  "sources idir ng lay dx U Ux =
     (let qx = qx3 U; qy = qy3 U; nvar = nvar3 U;
          nx = int qx - 2 * ng; ny = int qy - 2 * ng;
          ilo = ng; ihi = ng + nx; jlo = ng; jhi = ng + ny
      in for2 (ilo - ng + 1) (ihi + ng - 1) (jlo - ng + 1) (jhi + ng - 1)
           (sources_body idir lay dx U Ux) (zeros3 qx qy nvar))"

text \<open>The difference of the sweep-normal field across the cell, read from the interface state.\<close>

definition normal_jump :: "int \<Rightarrow> arr3 \<Rightarrow> nat \<Rightarrow> nat \<Rightarrow> nat \<Rightarrow> nat \<Rightarrow> double" where
  "normal_jump idir Ux kbx kby i j =
     (if idir = 1 then elem3 Ux (i + 1) j kbx - elem3 Ux i j kbx
      else elem3 Ux i (j + 1) kby - elem3 Ux i j kby)"

section \<open>The HLLE Riemann solver\<close>

text \<open>
  \<^verbatim>\<open>riemann_adiabatic(idir, ng, idens, ixmom, iymom, iener, ixmag, iymag, irhoX, nspec,
  lower_solid, upper_solid, gamma, U_l, U_r, Bx, By)\<close>. The body of its loop is split where
  the properties below need a name for an intermediate value: the primitive quantities of
  the two sides (lines 167 to 219 of the source), the two signal speed bounds (lines 221
  to 303) and the blend of the fluxes (lines 305 to 311). Within one iteration the model
  resolves the indices first.
\<close>

definition smallc :: double where
  "smallc = dbl (1 / 10 ^ 10)"

definition smallp :: double where
  "smallp = dbl (1 / 10 ^ 10)"

text \<open>\<^verbatim>\<open>np.sqrt(4 * np.pi)\<close>.\<close>

definition sqrt4pi :: double where
  "sqrt4pi = dsqrt (dbl 4 * dbl pi)"

text \<open>
  The thermal pressure before the floor,
  \<^verbatim>\<open>(E - 0.5 * rho * (un**2 + ut**2) - 0.5 * B2) * (gamma - 1.0)\<close>, and the sound speed
  \<^verbatim>\<open>max(smallc, np.sqrt(gamma * p / rho))\<close>.
\<close>

definition thermal_pressure ::
  "double \<Rightarrow> double \<Rightarrow> double \<Rightarrow> double \<Rightarrow> double \<Rightarrow> double \<Rightarrow> double" where
  "thermal_pressure gamma E rho un ut B2 =
     (E - half * rho * (un * un + ut * ut) - half * B2) * (gamma - 1)"

definition sound_speed :: "double \<Rightarrow> double \<Rightarrow> double \<Rightarrow> fault + double" where
  "sound_speed gamma p rho =
     bnd (pdiv (gamma * p) rho) (\<lambda>q. bnd (psqrt q) (\<lambda>r. Inr (max smallc r)))"

record prims =
  rho_l :: double
  un_l :: double
  ut_l :: double
  rho_r :: double
  un_r :: double
  ut_r :: double
  Bx_l :: double
  Bx_r :: double
  By_l :: double
  By_r :: double
  B2_l :: double
  B2_r :: double
  p_l :: double
  p_r :: double
  c_l :: double
  c_r :: double

text \<open>
  The primitive quantities of one interface. \<open>ul\<close> and \<open>ur\<close> are the state vectors
  \<^verbatim>\<open>U_l[i, j, :]\<close> and \<^verbatim>\<open>U_r[i, j, :]\<close>, \<open>bn\<close> is the face-centred normal field
  (\<^verbatim>\<open>Bx[i, j]\<close> for \<^verbatim>\<open>idir == 1\<close>, \<^verbatim>\<open>By[i, j]\<close> otherwise).
\<close>

definition riemann_prims ::
  "int \<Rightarrow> double \<Rightarrow> slots \<Rightarrow> double list \<Rightarrow> double list \<Rightarrow> double \<Rightarrow> fault + prims" where
  "riemann_prims idir gamma s ul ur bn =
     (let rhol = ul ! sdens s in
      bnd (pdiv (ul ! (if idir = 1 then sxmom s else symom s)) rhol) (\<lambda>unl.
      bnd (pdiv (ul ! (if idir = 1 then symom s else sxmom s)) rhol) (\<lambda>utl.
      let Bxl = (if idir = 1 then bn else ul ! sxmag s);
          Bxr = (if idir = 1 then bn else ur ! sxmag s);
          Byl = (if idir = 1 then ul ! symag s else bn);
          Byr = (if idir = 1 then ur ! symag s else bn);
          B2l = Bxl * Bxl + Byl * Byl;
          B2r = Bxr * Bxr + Byr * Byr;
          pl = max (thermal_pressure gamma (ul ! sener s) rhol unl utl B2l) smallp;
          rhor = ur ! sdens s
      in
      bnd (pdiv (ur ! (if idir = 1 then sxmom s else symom s)) rhor) (\<lambda>unr.
      bnd (pdiv (ur ! (if idir = 1 then symom s else sxmom s)) rhor) (\<lambda>utr.
      let pr = max (thermal_pressure gamma (ur ! sener s) rhor unr utr B2r) smallp in
      bnd (sound_speed gamma pl rhol) (\<lambda>cl.
      bnd (sound_speed gamma pr rhor) (\<lambda>cr.
        Inr \<lparr>rho_l = rhol, un_l = unl, ut_l = utl, rho_r = rhor, un_r = unr, ut_r = utr,
             Bx_l = Bxl, Bx_r = Bxr, By_l = Byl, By_r = Byr, B2_l = B2l, B2_r = B2r,
             p_l = pl, p_r = pr, c_l = cl, c_r = cr\<rparr>)))))))"

text \<open>
  \<^verbatim>\<open>calc_evals(idir, U, gamma, idens, ixmom, iymom, iener, ixmag, iymag, irhoX, X, Y)\<close>: the
  seven eigenvalues of the Roe-averaged state.
\<close>

definition calc_evals ::
  "int \<Rightarrow> double list \<Rightarrow> double \<Rightarrow> slots \<Rightarrow> double \<Rightarrow> double \<Rightarrow> fault + double list" where
  "calc_evals idir U gamma s X Y =
     (let dens = U ! sdens s in
      bnd (pdiv (U ! sxmom s) dens) (\<lambda>u.
      bnd (pdiv (U ! symom s) dens) (\<lambda>v.
      let E = U ! sener s;
          bx = U ! sxmag s / sqrt4pi;
          by = U ! symag s / sqrt4pi;
          b2 = bx * bx + by * by;
          rhoe = E - half * dens * (u * u + v * v) - half * b2;
          P = rhoe * (gamma - 1)
      in
      bnd (pdiv (E + P + half * b2) dens) (\<lambda>H.
      let gamma_d = gamma - 1;
          X_d = (gamma - dbl 2) * X;
          Y_d = (gamma - dbl 2) * Y
      in
      bnd (pdiv b2 dens) (\<lambda>b2d.
      let a2 = gamma_d * (H - half * (u * u + v * v) - b2d) - X_d in
      bnd (pdiv (if idir = 1 then bx * bx else by * by) dens) (\<lambda>CAx2.
      let b_norm2 = (gamma_d - Y_d) * (if idir = 1 then by * by else bx * bx) in
      bnd (pdiv b_norm2 dens) (\<lambda>bnd2.
      let CA2 = CAx2 + bnd2 in
      bnd (psqrt ((a2 + CA2) * (a2 + CA2) - dbl 4 * a2 * CAx2)) (\<lambda>sd.
      let Cf2 = half * (a2 + CA2 + sd);
          Cs2 = half * (a2 + CA2 - sd);
          vx = (if idir = 1 then u else v)
      in
      bnd (psqrt Cf2) (\<lambda>sf.
      bnd (psqrt CAx2) (\<lambda>sa.
      bnd (psqrt Cs2) (\<lambda>ss.
        Inr [vx - sf, vx - sa, vx - ss, vx, vx + ss, vx + sa, vx + sf])))))))))))"

text \<open>
  The fast magnetosonic speed of one side,
  \<^verbatim>\<open>np.sqrt(0.5 * (c**2 + cA2 + np.sqrt((c**2 + cA2)**2 - 4 * c**2 * cAx2)))\<close>.
\<close>

definition fast_speed :: "double \<Rightarrow> double \<Rightarrow> double \<Rightarrow> fault + double" where
  "fast_speed c cA2 cAx2 =
     bnd (psqrt ((c * c + cA2) * (c * c + cA2) - dbl 4 * (c * c) * cAx2)) (\<lambda>d.
       psqrt (half * (c * c + cA2 + d)))"

text \<open>\<^verbatim>\<open>np.max\<close> and \<^verbatim>\<open>np.min\<close> of a non-empty one-dimensional array.\<close>

fun maxl :: "double list \<Rightarrow> double" where
  "maxl [] = 0"
| "maxl [x] = x"
| "maxl (x # y # ys) = max x (maxl (y # ys))"

fun minl :: "double list \<Rightarrow> double" where
  "minl [] = 0"
| "minl [x] = x"
| "minl (x # y # ys) = min x (minl (y # ys))"

text \<open>
  The Roe average \<^verbatim>\<open>q_av\<close> (lines 232 to 257): density, the two velocities, the
  enthalpy, the field slice \<^verbatim>\<open>ixmag:iymag + 1\<close> and the species slice \<^verbatim>\<open>irhoX:\<close>, assigned
  in this order.
\<close>

definition roe_average ::
  "double \<Rightarrow> layout \<Rightarrow> slots \<Rightarrow> double list \<Rightarrow> double list \<Rightarrow> prims \<Rightarrow> fault + double list" where
  "roe_average gamma lay s ul ur pr =
     (let n = length ul;
          q_av = replicate n 0
      in
      bnd (psqrt (rho_l pr * rho_r pr)) (\<lambda>qd.
      let q_av = q_av[sdens s := qd] in
      bnd (psqrt (rho_l pr)) (\<lambda>sl.
      bnd (psqrt (rho_r pr)) (\<lambda>sr.
      bnd (pdiv (ul ! sxmom s) sl) (\<lambda>a.
      bnd (pdiv (ur ! sxmom s) sr) (\<lambda>b.
      bnd (pdiv (a + b) (sl + sr)) (\<lambda>qx.
      let q_av = q_av[sxmom s := qx] in
      bnd (pdiv (ul ! symom s) sl) (\<lambda>a.
      bnd (pdiv (ur ! symom s) sr) (\<lambda>b.
      bnd (pdiv (a + b) (sl + sr)) (\<lambda>qy.
      let q_av = q_av[symom s := qy] in
      bnd (pdiv ((gamma - 1) * (ul ! sxmom s * ul ! sxmom s + ul ! symom s * ul ! symom s))
             (rho_l pr)) (\<lambda>kl.
      bnd (pdiv (gamma * ul ! sener s - kl + half * gamma * B2_l pr) (rho_l pr)) (\<lambda>hl.
      bnd (pdiv ((gamma - 1) * (ur ! sxmom s * ur ! sxmom s + ur ! symom s * ur ! symom s))
             (rho_r pr)) (\<lambda>kr.
      bnd (pdiv (gamma * ur ! sener s - kr + half * gamma * B2_r pr) (rho_r pr)) (\<lambda>hr.
      bnd (pdiv (hl * sl + hr * sr) (sl + sr)) (\<lambda>qe.
      let q_av = q_av[sener s := qe];
          q_av = set_slice q_av (ixmag lay) (iymag lay + 1)
                   (\<lambda>k. (ul ! k * sl + ur ! k * sr) / (sl + sr))
      in Inr (set_slice q_av (irhoX lay) (int n)
                (\<lambda>k. (ul ! k / sl + ur ! k / sr) / (sl + sr))))))))))))))))))"

text \<open>The conservative form \<^verbatim>\<open>U_av\<close> of the average (lines 259 to 268).\<close>

definition roe_conserved :: "double \<Rightarrow> layout \<Rightarrow> slots \<Rightarrow> double list \<Rightarrow> fault + double list" where
  "roe_conserved gamma lay s q_av =
     (let n = length q_av;
          U_av = replicate n 0;
          U_av = U_av[sdens s := q_av ! sdens s];
          U_av = U_av[sxmom s := q_av ! sdens s * q_av ! sxmom s];
          U_av = U_av[symom s := q_av ! sdens s * q_av ! symom s]
      in
      bnd (pdiv (q_av ! sener s * q_av ! sdens s
                   + (gamma - 1) * q_av ! sdens s
                       * (q_av ! sxmom s * q_av ! sxmom s + q_av ! symom s * q_av ! symom s)
                   - half * gamma
                       * (q_av ! sxmag s * q_av ! sxmag s + q_av ! symag s * q_av ! symag s))
             gamma) (\<lambda>ue.
      let U_av = U_av[sener s := ue];
          U_av = set_slice U_av (ixmag lay) (iymag lay + 1) (\<lambda>k. q_av ! k)
      in Inr (set_slice U_av (irhoX lay) (int n) (\<lambda>k. q_av ! sdens s * q_av ! k))))"

text \<open>
  The correction scalars
  \<^verbatim>\<open>X = 0.5 * (by_l - by_r)**2 / (np.sqrt(rho_l) + np.sqrt(rho_r))\<close> (with \<^verbatim>\<open>bx\<close> for a
  y-sweep) and \<^verbatim>\<open>Y = 0.5 * (rho_l + rho_r) / U_av[idens]\<close>, of the normalised fields
  \<^verbatim>\<open>bx_l = Bx_l / np.sqrt(4 * np.pi)\<close> and so on.
\<close>

definition roe_corrections :: "int \<Rightarrow> slots \<Rightarrow> prims \<Rightarrow> double list \<Rightarrow> fault + double \<times> double" where
  "roe_corrections idir s pr U_av =
     (let bl = (if idir = 1 then By_l pr else Bx_l pr) / sqrt4pi;
          br = (if idir = 1 then By_r pr else Bx_r pr) / sqrt4pi
      in
      bnd (psqrt (rho_l pr)) (\<lambda>sl.
      bnd (psqrt (rho_r pr)) (\<lambda>sr.
      bnd (pdiv (half * ((bl - br) * (bl - br))) (sl + sr)) (\<lambda>X.
      bnd (pdiv (half * (rho_l pr + rho_r pr)) (U_av ! sdens s)) (\<lambda>Y.
        Inr (X, Y))))))"

text \<open>
  The fast magnetosonic speed of one side from its own density, sound speed and fields
  (lines 282 to 300): \<^verbatim>\<open>cA2 = (bx**2 + by**2) / rho\<close>, \<^verbatim>\<open>cAx2 = bx**2 / rho\<close> (\<^verbatim>\<open>by\<close> for
  a y-sweep).
\<close>

definition side_fast_speed :: "int \<Rightarrow> double \<Rightarrow> double \<Rightarrow> double \<Rightarrow> double \<Rightarrow> fault + double" where
  "side_fast_speed idir rho c Bx By =
     (let bx = Bx / sqrt4pi;
          by = By / sqrt4pi
      in
      bnd (pdiv (bx * bx + by * by) rho) (\<lambda>cA2.
      bnd (pdiv (if idir = 1 then bx * bx else by * by) rho) (\<lambda>cAx2.
        fast_speed c cA2 cAx2)))"

text \<open>
  The bounds \<^verbatim>\<open>bp = max(max(np.max(evals), un_r + cf_r), 0)\<close> and
  \<^verbatim>\<open>bm = min(min(np.min(evals), un_l - cf_l), 0)\<close> of lines 221 to 303; the result is
  \<open>(bp, bm)\<close>.
\<close>

definition riemann_bounds ::
  "int \<Rightarrow> double \<Rightarrow> layout \<Rightarrow> slots \<Rightarrow> double list \<Rightarrow> double list \<Rightarrow> prims \<Rightarrow>
     fault + double \<times> double" where
  "riemann_bounds idir gamma lay s ul ur pr =
     bnd (roe_average gamma lay s ul ur pr) (\<lambda>q_av.
     bnd (roe_conserved gamma lay s q_av) (\<lambda>U_av.
     bnd (roe_corrections idir s pr U_av) (\<lambda>XY.
     bnd (calc_evals idir U_av gamma s (fst XY) (snd XY)) (\<lambda>evals.
     bnd (side_fast_speed idir (rho_l pr) (c_l pr) (Bx_l pr) (By_l pr)) (\<lambda>cf_l.
     bnd (side_fast_speed idir (rho_r pr) (c_r pr) (Bx_r pr) (By_r pr)) (\<lambda>cf_r.
       Inr (max (max (maxl evals) (un_r pr + cf_r)) 0,
            min (min (minl evals) (un_l pr - cf_l)) 0)))))))"

text \<open>
  The blend \<^verbatim>\<open>(bp * f_l - bm * f_r) / (bp - bm) + bp * bm / (bp - bm) * (U_r - U_l)\<close>,
  component by component. The scalar quotient \<^verbatim>\<open>bp * bm / (bp - bm)\<close> raises
  \<^verbatim>\<open>ZeroDivisionError\<close> when the two bounds coincide.
\<close>

definition hlle_flux ::
  "double \<Rightarrow> double \<Rightarrow> double list \<Rightarrow> double list \<Rightarrow> double list \<Rightarrow> double list \<Rightarrow>
     fault + double list" where
  "hlle_flux bp bm f_l f_r ul ur =
     bnd (pdiv (bp * bm) (bp - bm)) (\<lambda>w.
       Inr (map (\<lambda>k. (bp * f_l ! k - bm * f_r ! k) / (bp - bm) + w * (ur ! k - ul ! k))
              [0..<length ul]))"

text \<open>One interface: the flux vector stored in \<^verbatim>\<open>F[i, j, :]\<close>.\<close>

definition riemann_cell ::
  "int \<Rightarrow> double \<Rightarrow> layout \<Rightarrow> int \<Rightarrow> double list \<Rightarrow> double list \<Rightarrow> double \<Rightarrow> fault + double list" where
  "riemann_cell idir gamma lay nspec ul ur bn =
     bnd (resolve (length ul) lay) (\<lambda>s.
     if length ur \<noteq> length ul then Inl ValueError else
     bnd (riemann_prims idir gamma s ul ur bn) (\<lambda>pr.
     bnd (riemann_bounds idir gamma lay s ul ur pr) (\<lambda>b.
     bnd (consFlux idir gamma lay nspec ul) (\<lambda>f_l.
     bnd (consFlux idir gamma lay nspec ur) (\<lambda>f_r.
       hlle_flux (fst b) (snd b) f_l f_r ul ur)))))"

definition riemann_body ::
  "int \<Rightarrow> double \<Rightarrow> layout \<Rightarrow> int \<Rightarrow> arr3 \<Rightarrow> arr3 \<Rightarrow> arr2 \<Rightarrow> arr2 \<Rightarrow> int \<Rightarrow> int \<Rightarrow> arr3 \<Rightarrow>
     fault + arr3" where
  "riemann_body idir gamma lay nspec U_l U_r Bx By i j F =
     bnd (py_index (qx3 U_l) i) (\<lambda>a.
     bnd (py_index (qy3 U_l) j) (\<lambda>b.
     bnd (py_index (qx3 U_r) i) (\<lambda>ar.
     bnd (py_index (qy3 U_r) j) (\<lambda>br.
     bnd (get2 (if idir = 1 then Bx else By) i j) (\<lambda>bn.
     bnd (riemann_cell idir gamma lay nspec (cell U_l a b) (cell U_r ar br) bn) (\<lambda>f.
       Inr (set_cell F a b f)))))))"

text \<open>
  The flags \<^verbatim>\<open>lower_solid\<close> and \<^verbatim>\<open>upper_solid\<close> are parameters of the model as they are
  of the function.
\<close>

definition riemann_adiabatic ::
  "int \<Rightarrow> int \<Rightarrow> layout \<Rightarrow> int \<Rightarrow> int \<Rightarrow> int \<Rightarrow> double \<Rightarrow> arr3 \<Rightarrow> arr3 \<Rightarrow> arr2 \<Rightarrow> arr2 \<Rightarrow>
     fault + arr3" where
  "riemann_adiabatic idir ng lay nspec lower_solid upper_solid gamma U_l U_r Bx By =
     (let qx = qx3 U_l; qy = qy3 U_l; nvar = nvar3 U_l;
          nx = int qx - 2 * ng; ny = int qy - 2 * ng;
          ilo = ng; ihi = ng + nx; jlo = ng; jhi = ng + ny
      in for2 (ilo - 2) (ihi + 2) (jlo - 2) (jhi + 2)
           (riemann_body idir gamma lay nspec U_l U_r Bx By) (zeros3 qx qy nvar))"

section \<open>Example inputs\<close>

text \<open>
  Arrays of nine by nine cells with seven variables (ghost width four, one interior cell),
  in the layout \<open>lay7\<close>: a cell-centred state, an interface state whose x-field rises
  from 1 to 3 between the interfaces 4 and 5, and two flux fields whose sweep-normal field
  components are zero.
\<close>

definition U9 :: arr3 where
  "U9 = \<lparr>qx3 = 9, qy3 = 9, nvar3 = 7,
          elem3 = (\<lambda>i j k. [dbl 1, 0, 0, dbl 4, dbl 1, dbl 2, 0] ! k)\<rparr>"

definition Ux9 :: arr3 where
  "Ux9 = \<lparr>qx3 = 9, qy3 = 9, nvar3 = 7,
          elem3 = (\<lambda>i j k. [dbl 1, 0, 0, dbl 4, if i = 5 then dbl 3 else dbl 1, dbl 2, 0] ! k)\<rparr>"

definition Fx9 :: arr3 where
  "Fx9 = \<lparr>qx3 = 9, qy3 = 9, nvar3 = 7,
           elem3 = (\<lambda>i j k. [dbl 1, dbl 2, 0, dbl 3, 0, dbl 5, 0] ! k)\<rparr>"

definition Fy9 :: arr3 where
  "Fy9 = \<lparr>qx3 = 9, qy3 = 9, nvar3 = 7,
           elem3 = (\<lambda>i j k. [dbl 1, 0, dbl 2, dbl 3, dbl 7, 0, 0] ! k)\<rparr>"

text \<open>
  A supersonic state with one species (density 1, velocity 2 along x, pressure 1/2, no
  field, species density 0.1, for \<^verbatim>\<open>gamma = 2\<close>): the primitive quantities of an interface
  with this state on both sides, its physical flux, the flux that the solver stores, and
  the field of nine by nine such cells.
\<close>

text \<open>The doubles that Python prints as 0.1, 0.2 and 0.20000000000000004.\<close>

definition tenth :: double where
  "tenth = dbl (3602879701896397 / 2 ^ 55)"

definition fifth :: double where
  "fifth = dbl (3602879701896397 / 2 ^ 54)"

definition fifth_up :: double where
  "fifth_up = dbl (7205759403792795 / 2 ^ 55)"

definition stateA :: "double list" where
  "stateA = [1, dbl 2, 0, dbl (5 / 2), 0, 0, tenth]"

definition primsA :: prims where
  "primsA = \<lparr>rho_l = 1, un_l = dbl 2, ut_l = 0, rho_r = 1, un_r = dbl 2, ut_r = 0,
             Bx_l = 0, Bx_r = 0, By_l = 0, By_r = 0, B2_l = 0, B2_r = 0,
             p_l = dbl (1 / 2), p_r = dbl (1 / 2), c_l = 1, c_r = 1\<rparr>"

definition fluxA :: "double list" where
  "fluxA = [dbl 2, dbl (9 / 2), 0, dbl 6, 0, 0, fifth]"

definition cellA :: "double list" where
  "cellA = [dbl 2, dbl (9 / 2), 0, dbl 6, 0, 0, fifth_up]"

definition gridA :: arr3 where
  "gridA = \<lparr>qx3 = 9, qy3 = 9, nvar3 = 7, elem3 = (\<lambda>i j k. stateA ! k)\<rparr>"


text \<open>
  A cold head-on collision (density 1, velocities 5 and -5 along x, total energy 12.5 on
  both sides, no field, for \<^verbatim>\<open>gamma = 2\<close>): the energy is all kinetic, the thermal pressure
  computed from it is zero and is floored. \<open>cB\<close> and \<open>cfB\<close> are the sound speed and the fast
  speed of the floored sides, \<open>restB\<close> is the Roe average of the two states.
\<close>

definition stateL :: "double list" where
  "stateL = [1, dbl 5, 0, dbl (25 / 2), 0, 0, 0]"

definition stateR :: "double list" where
  "stateR = [1, dbl (- 5), 0, dbl (25 / 2), 0, 0, 0]"

definition cB :: double where
  "cB = max smallc (dsqrt (dbl 2 * smallp / 1))"




definition gridL :: arr3 where
  "gridL = \<lparr>qx3 = 9, qy3 = 9, nvar3 = 7, elem3 = (\<lambda>i j k. stateL ! k)\<rparr>"

definition gridR :: arr3 where
  "gridR = \<lparr>qx3 = 9, qy3 = 9, nvar3 = 7, elem3 = (\<lambda>i j k. stateR ! k)\<rparr>"

text \<open>
  A state whose energy is below its kinetic energy (density 1, velocity 1 along x, total
  energy 1/4, no field, for \<^verbatim>\<open>gamma = 2\<close>): the thermal pressure computed from it is -1/4
  and is floored.
\<close>

definition stateN :: "double list" where
  "stateN = [1, 1, 0, dbl (1 / 4), 0, 0, 0]"

definition primsN :: prims where
  "primsN = \<lparr>rho_l = 1, un_l = 1, ut_l = 0, rho_r = 1, un_r = 1, ut_r = 0,
             Bx_l = 0, Bx_r = 0, By_l = 0, By_r = 0, B2_l = 0, B2_r = 0,
             p_l = smallp, p_r = smallp, c_l = cB, c_r = cB\<rparr>"


text \<open>
  A primitive field of three cells along x with three components: the values 1, 1, 2 in
  component 0, the values 1, 2, 3 in component 1 (taken as the sweep-normal field) and the
  values 1, 2, 4 in component 2.
\<close>

definition qvC :: arr3 where
  "qvC = \<lparr>qx3 = 3, qy3 = 1, nvar3 = 3,
           elem3 = (\<lambda>i j k. [[1, 1, dbl 2], [1, dbl 2, dbl 3], [1, dbl 2, dbl 4]] ! k ! i)\<rparr>"
section \<open>Basic facts about the model\<close>

lemma bnd_Inr [simp]: "bnd (Inr x) f = f x"
  by (simp add: bnd_def)

lemma bnd_Inl [simp]: "bnd (Inl e) f = Inl e"
  by (simp add: bnd_def)

lemma bnd_eq_Inr_iff: "bnd m f = Inr y \<longleftrightarrow> (\<exists>x. m = Inr x \<and> f x = Inr y)"
  by (cases m) simp_all

lemma py_index_Inr_lt: "py_index n i = Inr k \<Longrightarrow> k < n"
  by (auto simp: py_index_def split: if_splits)

lemma py_index_nat [simp]: "k < n \<Longrightarrow> py_index n (int k) = Inr k"
  by (simp add: py_index_def)

lemma length_set_slice [simp]: "length (set_slice F lo hi g) = length F"
  by (simp add: set_slice_def)

lemma nth_set_slice:
  "k < length F \<Longrightarrow> set_slice F lo hi g ! k =
     (if slice_pos (length F) lo \<le> k \<and> k < slice_pos (length F) hi then g k else F ! k)"
  by (simp add: set_slice_def)


lemma resolve_Inr_lt:
  assumes "resolve n lay = Inr s"
  shows "sdens s < n" "sxmom s < n" "symom s < n" "sener s < n" "sxmag s < n" "symag s < n"
  using assms by (auto simp: resolve_def bnd_eq_Inr_iff dest: py_index_Inr_lt)

lemma resolve_lay7: "5 < n \<Longrightarrow> resolve n lay7 = Inr slots7"
  by (simp add: resolve_def lay7_def slots7_def py_index_def)

lemma lay7_irhoX: "irhoX lay7 = 6"
  by (simp add: lay7_def)

lemma consFlux_example:
  "consFlux 1 (dbl 2) lay7 1 [dbl 1, dbl 2, dbl 0, dbl 4, dbl 1, dbl 1, dbl (1 / 2)]
     = Inr [dbl 2, dbl 5, dbl (- 1), dbl 10, dbl 0, dbl 2, dbl 1]"
  by (simp add: consFlux_def resolve_lay7 slots7_def pdiv_def half_def Let_def dbl_eval
      set_slice_def slice_pos_def lay7_irhoX del: dbl_0 dbl_1)

subsection \<open>Loop rules\<close>

text \<open>
  An invariant indexed by the set of index pairs already visited carries a property through
  a nested loop: \<open>for2_total\<close> when every iteration is shown to succeed, \<open>for2_partial\<close>
  when the loop is known to have returned.
\<close>

lemma for_loop_total:
  assumes "I lo s"
      and "\<And>i t. lo \<le> i \<Longrightarrow> i < lo + int n \<Longrightarrow> I i t \<Longrightarrow> \<exists>t'. body i t = Inr t' \<and> I (i + 1) t'"
  shows "\<exists>s'. for_loop n lo body s = Inr s' \<and> I (lo + int n) s'"
  using assms
proof (induction n arbitrary: lo s)
  case 0
  then show ?case by simp
next
  case (Suc n)
  from Suc.prems(2)[of lo s] Suc.prems(1)
  obtain t where t: "body lo s = Inr t" "I (lo + 1) t" by auto
  have "\<exists>s'. for_loop n (lo + 1) body t = Inr s' \<and> I (lo + 1 + int n) s'"
  proof (rule Suc.IH[OF t(2)])
    fix i u
    assume "lo + 1 \<le> i" "i < lo + 1 + int n" "I i u"
    then show "\<exists>t'. body i u = Inr t' \<and> I (i + 1) t'"
      using Suc.prems(2)[of i u] by simp
  qed
  then show ?case using t(1) by (simp add: algebra_simps)
qed

lemma for_loop_partial:
  assumes "for_loop n lo body s = Inr s'" and "I lo s"
      and "\<And>i t t'. lo \<le> i \<Longrightarrow> i < lo + int n \<Longrightarrow> I i t \<Longrightarrow> body i t = Inr t' \<Longrightarrow> I (i + 1) t'"
  shows "I (lo + int n) s'"
  using assms
proof (induction n arbitrary: lo s)
  case 0
  then show ?case by simp
next
  case (Suc n)
  from Suc.prems(1) obtain t where t: "body lo s = Inr t" "for_loop n (lo + 1) body t = Inr s'"
    by (auto simp: bnd_eq_Inr_iff)
  have i1: "I (lo + 1) t" using Suc.prems(3)[of lo s t] Suc.prems(2) t(1) by simp
  have "I (lo + 1 + int n) s'"
  proof (rule Suc.IH[OF t(2) i1])
    fix i u u'
    assume "lo + 1 \<le> i" "i < lo + 1 + int n" "I i u" "body i u = Inr u'"
    then show "I (i + 1) u'"
      using Suc.prems(3)[of i u u'] by simp
  qed
  then show ?case by (simp add: algebra_simps)
qed

lemma rect_step: "jlo \<le> j \<Longrightarrow> {jlo..<j + 1} = insert j {jlo..<(j::int)}"
  by auto

lemma for2_total:
  assumes init: "I {} s"
      and step: "\<And>i j D t. ilo \<le> i \<Longrightarrow> i < ihi \<Longrightarrow> jlo \<le> j \<Longrightarrow> j < jhi \<Longrightarrow> (i, j) \<notin> D \<Longrightarrow>
                   D \<subseteq> {ilo..<ihi} \<times> {jlo..<jhi} \<Longrightarrow> I D t \<Longrightarrow>
                   \<exists>t'. body i j t = Inr t' \<and> I (insert (i, j) D) t'"
  shows "\<exists>s'. for2 ilo ihi jlo jhi body s = Inr s' \<and> I ({ilo..<ihi} \<times> {jlo..<jhi}) s'"
proof -
  define J where "J i t = I ({ilo..<i} \<times> {jlo..<jhi}) t" for i t
  have J0: "J ilo s" using init by (simp add: J_def)
  have outer: "\<exists>t'. for_range jlo jhi (body i) t = Inr t' \<and> J (i + 1) t'"
    if i: "ilo \<le> i" "i < ilo + int (nat (ihi - ilo))" and Ji: "J i t" for i t
  proof -
    have ihi: "i < ihi" using i by (auto split: if_splits)
    define K where "K j u = I ({ilo..<i} \<times> {jlo..<jhi} \<union> {i} \<times> {jlo..<j}) u" for j u
    have K0: "K jlo t" using Ji by (simp add: K_def J_def)
    have "\<exists>u. for_loop (nat (jhi - jlo)) jlo (body i) t = Inr u \<and> K (jlo + int (nat (jhi - jlo))) u"
    proof (rule for_loop_total[where I = K, OF K0])
      fix j u
      assume j: "jlo \<le> j" "j < jlo + int (nat (jhi - jlo))" and Kj: "K j u"
      have jhi: "j < jhi" using j by (auto split: if_splits)
      let ?D = "{ilo..<i} \<times> {jlo..<jhi} \<union> {i} \<times> {jlo..<j}"
      have "(i, j) \<notin> ?D" by auto
      moreover have "?D \<subseteq> {ilo..<ihi} \<times> {jlo..<jhi}" using ihi jhi i(1) by auto
      ultimately obtain u' where u': "body i j u = Inr u'" "I (insert (i, j) ?D) u'"
        using step[OF i(1) ihi j(1) jhi, of ?D u] Kj by (auto simp: K_def)
      have "insert (i, j) ?D = {ilo..<i} \<times> {jlo..<jhi} \<union> {i} \<times> {jlo..<j + 1}"
        using j(1) by auto
      then show "\<exists>t'. body i j u = Inr t' \<and> K (j + 1) t'" using u' by (simp add: K_def)
    qed
    then obtain u where u: "for_range jlo jhi (body i) t = Inr u" "K (jlo + int (nat (jhi - jlo))) u"
      by (auto simp: for_range_def)
    have "{ilo..<i} \<times> {jlo..<jhi} \<union> {i} \<times> {jlo..<jlo + int (nat (jhi - jlo))}
            = {ilo..<i + 1} \<times> {jlo..<jhi}"
      using i(1) by auto
    then show ?thesis using u by (simp add: K_def J_def)
  qed
  have "\<exists>s'. for_loop (nat (ihi - ilo)) ilo (\<lambda>i. for_range jlo jhi (body i)) s = Inr s'
          \<and> J (ilo + int (nat (ihi - ilo))) s'"
    by (rule for_loop_total[where I = J, OF J0]) (rule outer)
  moreover have "{ilo..<ilo + int (nat (ihi - ilo))} \<times> {jlo..<jhi} = {ilo..<ihi} \<times> {jlo..<jhi}"
    by auto
  ultimately show ?thesis by (simp add: for2_def for_range_def J_def)
qed

lemma for2_partial:
  assumes ret: "for2 ilo ihi jlo jhi body s = Inr s'"
      and init: "I {} s"
      and step: "\<And>i j D t t'. ilo \<le> i \<Longrightarrow> i < ihi \<Longrightarrow> jlo \<le> j \<Longrightarrow> j < jhi \<Longrightarrow> (i, j) \<notin> D \<Longrightarrow>
                   D \<subseteq> {ilo..<ihi} \<times> {jlo..<jhi} \<Longrightarrow> I D t \<Longrightarrow> body i j t = Inr t' \<Longrightarrow>
                   I (insert (i, j) D) t'"
  shows "I ({ilo..<ihi} \<times> {jlo..<jhi}) s'"
proof -
  define J where "J i t = I ({ilo..<i} \<times> {jlo..<jhi}) t" for i t
  have J0: "J ilo s" using init by (simp add: J_def)
  have outer: "J (i + 1) t'"
    if i: "ilo \<le> i" "i < ilo + int (nat (ihi - ilo))" and Ji: "J i t"
      and r: "for_range jlo jhi (body i) t = Inr t'" for i t t'
  proof -
    have ihi: "i < ihi" using i by (auto split: if_splits)
    define K where "K j u = I ({ilo..<i} \<times> {jlo..<jhi} \<union> {i} \<times> {jlo..<j}) u" for j u
    have K0: "K jlo t" using Ji by (simp add: K_def J_def)
    have r': "for_loop (nat (jhi - jlo)) jlo (body i) t = Inr t'" using r by (simp add: for_range_def)
    have "K (jlo + int (nat (jhi - jlo))) t'"
    proof (rule for_loop_partial[where I = K, OF r' K0])
      fix j u u'
      assume j: "jlo \<le> j" "j < jlo + int (nat (jhi - jlo))" and Kj: "K j u" and b: "body i j u = Inr u'"
      have jhi: "j < jhi" using j by (auto split: if_splits)
      let ?D = "{ilo..<i} \<times> {jlo..<jhi} \<union> {i} \<times> {jlo..<j}"
      have "(i, j) \<notin> ?D" by auto
      moreover have "?D \<subseteq> {ilo..<ihi} \<times> {jlo..<jhi}" using ihi jhi i(1) by auto
      ultimately have u': "I (insert (i, j) ?D) u'"
        using step[OF i(1) ihi j(1) jhi, of ?D u u'] Kj b by (auto simp: K_def)
      have "insert (i, j) ?D = {ilo..<i} \<times> {jlo..<jhi} \<union> {i} \<times> {jlo..<j + 1}"
        using j(1) by auto
      then show "K (j + 1) u'" using u' by (simp add: K_def)
    qed
    moreover have "{ilo..<i} \<times> {jlo..<jhi} \<union> {i} \<times> {jlo..<jlo + int (nat (jhi - jlo))}
            = {ilo..<i + 1} \<times> {jlo..<jhi}"
      using i(1) by auto
    ultimately show ?thesis by (simp add: K_def J_def)
  qed
  have r: "for_loop (nat (ihi - ilo)) ilo (\<lambda>i. for_range jlo jhi (body i)) s = Inr s'"
    using ret by (simp add: for2_def for_range_def)
  have "J (ilo + int (nat (ihi - ilo))) s'"
    by (rule for_loop_partial[where I = J, OF r J0]) (rule outer)
  moreover have "{ilo..<ilo + int (nat (ihi - ilo))} \<times> {jlo..<jhi} = {ilo..<ihi} \<times> {jlo..<jhi}"
    by auto
  ultimately show ?thesis by (simp add: J_def)
qed

subsection \<open>Array updates\<close>

lemma elem3_set_cell:
  "elem3 (set_cell A i j v) a b k
     = (if a = i \<and> b = j \<and> k < length v then v ! k else elem3 A a b k)"
  by (simp add: set_cell_def)

lemma shape_set_cell [simp]:
  "qx3 (set_cell A i j v) = qx3 A" "qy3 (set_cell A i j v) = qy3 A"
  "nvar3 (set_cell A i j v) = nvar3 A"
  by (simp_all add: set_cell_def)

lemma py_index_int: "0 \<le> i \<Longrightarrow> i < int n \<Longrightarrow> py_index n i = Inr (nat i)"
  by (simp add: py_index_def)

lemma elem3_set_elem3:
  "elem3 (set_elem3 A i j k x) a b c = (if a = i \<and> b = j \<and> c = k then x else elem3 A a b c)"
  by (simp add: set_elem3_def)

lemma shape_set_elem3 [simp]:
  "qx3 (set_elem3 A i j k x) = qx3 A" "qy3 (set_elem3 A i j k x) = qy3 A"
  "nvar3 (set_elem3 A i j k x) = nvar3 A"
  by (simp_all add: set_elem3_def)

lemma get3_int:
  "0 \<le> i \<Longrightarrow> i < int (qx3 A) \<Longrightarrow> 0 \<le> j \<Longrightarrow> j < int (qy3 A) \<Longrightarrow> py_index (nvar3 A) k = Inr c \<Longrightarrow>
     get3 A i j k = Inr (elem3 A (nat i) (nat j) c)"
  by (simp add: get3_def py_index_int)

lemma put3_int:
  "0 \<le> i \<Longrightarrow> i < int (qx3 A) \<Longrightarrow> 0 \<le> j \<Longrightarrow> j < int (qy3 A) \<Longrightarrow> py_index (nvar3 A) k = Inr c \<Longrightarrow>
     put3 A i j k x = Inr (set_elem3 A (nat i) (nat j) c x)"
  by (simp add: put3_def py_index_int)

lemma lay7_slots:
  "6 < n \<Longrightarrow> py_index n (idens lay7) = Inr 0" "6 < n \<Longrightarrow> py_index n (ixmom lay7) = Inr 1"
  "6 < n \<Longrightarrow> py_index n (iymom lay7) = Inr 2" "6 < n \<Longrightarrow> py_index n (iener lay7) = Inr 3"
  "6 < n \<Longrightarrow> py_index n (ixmag lay7) = Inr 4" "6 < n \<Longrightarrow> py_index n (iymag lay7) = Inr 5"
  by (simp_all add: lay7_def py_index_def)

section \<open>Properties of the conservative flux\<close>

text \<open>
  C8. Whenever \<open>consFlux\<close> returns a flux, for a layout whose two field slots are distinct
  and whose species slice does not cover the sweep-normal field slot, the flux component in
  the sweep-normal field slot (x-field for \<^verbatim>\<open>idir == 1\<close>, y-field otherwise) is exactly zero,
  whatever the state vector, the adiabatic index and the species count.
\<close>

theorem consFlux_normal_field_zero:
  assumes ret: "consFlux idir gamma lay naux U = Inr F"
      and res: "resolve (length U) lay = Inr s"
      and dist: "sxmag s \<noteq> symag s"
      and spec: "\<not> in_species_block (length U) lay naux (normal_slot idir s)"
  shows "F ! normal_slot idir s = 0"
proof -
  note lt = resolve_Inr_lt[OF res]
  show ?thesis
  proof (cases "idir = 1")
    case True
    then show ?thesis
      using ret res dist spec lt
      by (auto simp: consFlux_def Let_def bnd_eq_Inr_iff nth_set_slice in_species_block_def
          normal_slot_def)
  next
    case False
    then show ?thesis
      using ret res dist spec lt
      by (auto simp: consFlux_def Let_def bnd_eq_Inr_iff nth_set_slice in_species_block_def
          normal_slot_def)
  qed
qed

theorem consFlux_normal_field_zero_witness:
  "consFlux 1 (dbl 2) lay7 1 [dbl 1, dbl 2, dbl 0, dbl 4, dbl 1, dbl 1, dbl (1 / 2)]
     = Inr [dbl 2, dbl 5, dbl (- 1), dbl 10, dbl 0, dbl 2, dbl 1]
   \<and> [dbl 2, dbl 5, dbl (- 1), dbl 10, dbl 0, dbl 2, dbl 1] ! normal_slot 1 slots7 = 0"
proof -
  let ?U = "[dbl 1, dbl 2, dbl 0, dbl 4, dbl 1, dbl 1, dbl (1 / 2)]"
  have r: "resolve (length ?U) lay7 = Inr slots7"
    by (simp add: resolve_lay7)
  have d: "sxmag slots7 \<noteq> symag slots7"
    by (simp add: slots7_def)
  have b: "\<not> in_species_block (length ?U) lay7 1 (normal_slot 1 slots7)"
    by (simp add: in_species_block_def normal_slot_def slice_pos_def lay7_irhoX slots7_def)
  show ?thesis
    by (rule conjI[OF consFlux_example consFlux_normal_field_zero[OF consFlux_example r d b]])
qed


section \<open>Properties of the reconstruction\<close>

lemma val_limiter:
  "val (limiter l r c) = sgn (val c) * min (2 * \<bar>val l\<bar>) (min (2 * \<bar>val r\<bar>) \<bar>val c\<bar>)"
  by (simp add: limiter_def val_sign_times val_min val_two_times abs_double.rep_eq)

text \<open>
  C7, as the code has it. \<open>dq idir nb qv i j k\<close> is the limited slope that \<open>states\<close> uses in
  cell \<open>(i, j)\<close> and component \<open>k\<close>; \<open>dq_l\<close>, \<open>dq_r\<close> and \<open>dq_c\<close> are the backward, forward
  and centred differences of the three consecutive values there. In every component but the
  sweep-normal field (\<open>nb\<close>) the slope is \<open>sgn dq_c * min (2 \<bar>dq_l\<bar>) (2 \<bar>dq_r\<bar>) \<bar>dq_c\<bar>\<close>
  with nothing lost to rounding; in the component of the sweep-normal field it is zero. So
  its absolute value is at most that minimum, it never has the sign opposite to the centred
  difference, it has the sign of the centred difference whenever both one-sided differences
  are not zero (and the component is not the sweep-normal field), and it is zero when one of
  the three differences is zero.
\<close>

theorem limiter_sign_bound:
  "val (dq idir nb qv i j k) =
     (if k = nb then 0
      else sgn (val (dq_c idir qv i j k))
           * min (2 * \<bar>val (dq_l idir qv i j k)\<bar>)
               (min (2 * \<bar>val (dq_r idir qv i j k)\<bar>) \<bar>val (dq_c idir qv i j k)\<bar>))
   \<and> \<bar>val (dq idir nb qv i j k)\<bar>
       \<le> min (2 * \<bar>val (dq_l idir qv i j k)\<bar>)
           (min (2 * \<bar>val (dq_r idir qv i j k)\<bar>) \<bar>val (dq_c idir qv i j k)\<bar>)
   \<and> 0 \<le> val (dq idir nb qv i j k) * val (dq_c idir qv i j k)
   \<and> (k \<noteq> nb \<and> dq_l idir qv i j k \<noteq> 0 \<and> dq_r idir qv i j k \<noteq> 0
        \<longrightarrow> sgn (val (dq idir nb qv i j k)) = sgn (val (dq_c idir qv i j k)))
   \<and> (k = nb \<or> dq_l idir qv i j k = 0 \<or> dq_r idir qv i j k = 0 \<or> dq_c idir qv i j k = 0
        \<longrightarrow> dq idir nb qv i j k = 0)"
proof -
  define l r c where "l = val (dq_l idir qv i j k)" and "r = val (dq_r idir qv i j k)"
    and "c = val (dq_c idir qv i j k)"
  define m where "m = min (2 * \<bar>l\<bar>) (min (2 * \<bar>r\<bar>) \<bar>c\<bar>)"
  define s where "s = val (dq idir nb qv i j k)"
  have m0: "0 \<le> m" by (simp add: m_def)
  have s: "s = (if k = nb then 0 else sgn c * m)"
    by (simp add: s_def dq_def dq_lim_def val_limiter m_def l_def r_def c_def zero_double.rep_eq)
  have 1: "\<bar>s\<bar> \<le> m" using m0 by (simp add: s abs_mult abs_sgn_eq)
  have 2: "0 \<le> s * c"
    using m0 by (simp add: s sgn_real_def zero_le_mult_iff)
  have 3: "sgn s = sgn c" if "k \<noteq> nb" "l \<noteq> 0" "r \<noteq> 0"
  proof (cases "c = 0")
    case True then show ?thesis by (simp add: s)
  next
    case False
    then have "0 < m" using that by (simp add: m_def)
    then show ?thesis using that by (simp add: s sgn_mult)
  qed
  have 4: "s = 0" if "k = nb \<or> l = 0 \<or> r = 0 \<or> c = 0"
    using that by (auto simp: s m_def)
  have z: "(x = 0) = (val x = 0)" for x :: double by simp
  show ?thesis
    unfolding z
    unfolding s_def[symmetric] l_def[symmetric] r_def[symmetric] c_def[symmetric]
    unfolding m_def[symmetric]
  proof (intro conjI impI)
    show "s = (if k = nb then 0 else sgn c * m)" by (rule s)
    show "\<bar>s\<bar> \<le> m" by (rule 1)
    show "0 \<le> s * c" by (rule 2)
    show "sgn s = sgn c" if "k \<noteq> nb \<and> l \<noteq> 0 \<and> r \<noteq> 0" using 3 that by blast
    show "s = 0" if "k = nb \<or> l = 0 \<or> r = 0 \<or> c = 0" using 4 that by blast
  qed
qed

lemma qvC_diffs:
  "dq_l 1 qvC 1 0 0 = 0" "dq_c 1 qvC 1 0 0 = half"
  "dq_l 1 qvC 1 0 1 = 1" "dq_r 1 qvC 1 0 1 = 1" "dq_c 1 qvC 1 0 1 = 1"
  "dq_l 1 qvC 1 0 2 = 1" "dq_r 1 qvC 1 0 2 = dbl 2" "dq_c 1 qvC 1 0 2 = dbl (3 / 2)"
  by (simp_all add: dq_l_def dq_r_def dq_c_def qvC_def half_def dbl_eval del: dbl_0 dbl_1)

lemma val_half: "val half = 1 / 2"
  by (simp add: half_def val_dbl)

text \<open>
  The slope need not have the sign of the centred difference. For the consecutive values
  1, 1, 2 the backward difference is zero, the centred difference is positive and the slope
  is zero. In the component of the sweep-normal field, for the values 1, 2, 3, all three
  differences are 1 and the slope is zero.
\<close>

theorem limiter_sign_counterexample:
  "dq 1 1 qvC 1 0 0 = 0 \<and> 0 < dq_c 1 qvC 1 0 0
   \<and> sgn (val (dq 1 1 qvC 1 0 0)) \<noteq> sgn (val (dq_c 1 qvC 1 0 0))
   \<and> dq 1 1 qvC 1 0 1 = 0 \<and> dq_l 1 qvC 1 0 1 = 1 \<and> dq_r 1 qvC 1 0 1 = 1 \<and> dq_c 1 qvC 1 0 1 = 1
   \<and> sgn (val (dq 1 1 qvC 1 0 1)) \<noteq> sgn (val (dq_c 1 qvC 1 0 1))"
proof -
  have "val (limiter 0 (dq_r 1 qvC 1 0 0) half) = 0"
    unfolding val_limiter by (simp add: zero_double.rep_eq)
  then have a: "dq 1 1 qvC 1 0 0 = 0"
    unfolding dq_def dq_lim_def qvC_diffs by simp
  have b: "0 < dq_c 1 qvC 1 0 0"
    unfolding qvC_diffs by (simp add: less_double.rep_eq zero_double.rep_eq val_half)
  have c: "sgn (val (dq 1 1 qvC 1 0 0)) \<noteq> sgn (val (dq_c 1 qvC 1 0 0))"
    unfolding a qvC_diffs by (simp add: zero_double.rep_eq val_half)
  have d: "dq 1 1 qvC 1 0 1 = 0"
    unfolding dq_def by simp
  have e: "sgn (val (dq 1 1 qvC 1 0 1)) \<noteq> sgn (val (dq_c 1 qvC 1 0 1))"
    unfolding d qvC_diffs by (simp add: zero_double.rep_eq one_double.rep_eq)
  show ?thesis
    by (intro conjI a b c d e qvC_diffs(3-5))
qed

theorem limiter_sign_bound_witness:
  "((2::nat) \<noteq> 1 \<and> dq_l 1 qvC 1 0 2 \<noteq> 0 \<and> dq_r 1 qvC 1 0 2 \<noteq> 0)
   \<and> sgn (val (dq 1 1 qvC 1 0 2)) = sgn (val (dq_c 1 qvC 1 0 2))
   \<and> ((0::nat) = 1 \<or> dq_l 1 qvC 1 0 0 = 0 \<or> dq_r 1 qvC 1 0 0 = 0 \<or> dq_c 1 qvC 1 0 0 = 0)
   \<and> dq 1 1 qvC 1 0 0 = 0"
proof -
  have v2: "val (dbl 2) = 2" by (simp add: val_dbl)
  have a: "(2::nat) \<noteq> 1 \<and> dq_l 1 qvC 1 0 2 \<noteq> 0 \<and> dq_r 1 qvC 1 0 2 \<noteq> 0"
    unfolding qvC_diffs by (simp add: double_eq_iff v2 zero_double.rep_eq one_double.rep_eq del: val_eq_0_iff)
  have b: "(0::nat) = 1 \<or> dq_l 1 qvC 1 0 0 = 0 \<or> dq_r 1 qvC 1 0 0 = 0 \<or> dq_c 1 qvC 1 0 0 = 0"
    unfolding qvC_diffs by simp
  from limiter_sign_bound[of 1 1 qvC 1 0 2] a
  have c: "sgn (val (dq 1 1 qvC 1 0 2)) = sgn (val (dq_c 1 qvC 1 0 2))" by blast
  from limiter_sign_bound[of 1 1 qvC 1 0 0] b
  have d: "dq 1 1 qvC 1 0 0 = 0" by blast
  show ?thesis by (rule conjI[OF a conjI[OF c conjI[OF b d]]])
qed


lemma limiter_zero [simp]: "limiter 0 0 0 = 0"
  by (simp add: limiter_def)

lemma half_zero [simp]: "half * 0 = 0"
  by simp

lemma dq_uniform:
  assumes "uniform qv c" "a < qx3 qv" "b < qy3 qv" "k < nvar3 qv"
  shows "dq idir nb qv a b k = 0"
proof -
  have u: "\<And>i j. i < qx3 qv \<Longrightarrow> j < qy3 qv \<Longrightarrow> elem3 qv i j k = c k"
    using assms(1,4) by (simp add: uniform_def)
  have "dq_l idir qv a b k = 0" using assms(2,3) by (simp add: dq_l_def u)
  moreover have "dq_r idir qv a b k = 0" using assms(2,3) by (simp add: dq_r_def u)
  moreover have "dq_c idir qv a b k = 0" using assms(2,3) by (simp add: dq_c_def u)
  ultimately show ?thesis by (simp add: dq_def dq_lim_def)
qed

text \<open>
  C6. For a ghost width of at least four and a spatially uniform primitive field,
  \<open>states\<close> returns, and in every interior cell, for either sweep direction and every
  component, the left and the right interface state are the value of the field.
\<close>

theorem states_uniform_exact:
  assumes ng: "4 \<le> ng"
      and un: "uniform qv c"
      and nb: "py_index (nvar3 qv) (if idir = 1 then ibx else iby) = Inr nb"
  shows "\<exists>ql qr. states idir ng ibx iby qv = Inr (ql, qr) \<and>
           (\<forall>i j k. ng \<le> int i \<and> int i < int (qx3 qv) - ng \<and> ng \<le> int j \<and> int j < int (qy3 qv) - ng
               \<and> k < nvar3 qv \<longrightarrow> elem3 ql i j k = c k \<and> elem3 qr i j k = c k)"
proof -
  let ?qx = "qx3 qv" and ?qy = "qy3 qv" and ?nv = "nvar3 qv"
  let ?ilo = "ng - 3" and ?ihi = "ng + (int ?qx - 2 * ng) + 3"
  let ?jlo = "ng - 3" and ?jhi = "ng + (int ?qy - 2 * ng) + 3"
  define I where "I D Q \<longleftrightarrow>
      (\<forall>a b k. k < ?nv \<longrightarrow>
         ((int a, int b) \<in> D \<longrightarrow> elem3 (snd Q) a b k = c k) \<and>
         ((if idir = 1 then (int a - 1, int b) else (int a, int b - 1)) \<in> D \<longrightarrow> elem3 (fst Q) a b k = c k))"
    for D :: "(int \<times> int) set" and Q :: "arr3 \<times> arr3"
  have init: "I {} (zeros3 ?qx ?qy ?nv, zeros3 ?qx ?qy ?nv)" by (simp add: I_def)
  have step: "\<exists>t'. states_body idir nb qv i j t = Inr t' \<and> I (insert (i, j) D) t'"
    if i: "?ilo \<le> i" "i < ?ihi" and j: "?jlo \<le> j" "j < ?jhi" and inv: "I D t" for i j D t
  proof -
    have i0: "0 \<le> i" "i < int ?qx" "0 \<le> i + 1" "i + 1 < int ?qx" using i ng by auto
    have j0: "0 \<le> j" "j < int ?qy" "0 \<le> j + 1" "j + 1 < int ?qy" using j ng by auto
    have a: "nat i < ?qx" "nat j < ?qy" using i0 j0 by auto
    have vals: "map (\<lambda>k. elem3 qv (nat i) (nat j) k + half * dq d nb qv (nat i) (nat j) k) [0..<?nv]
                  = map c [0..<?nv]"
               "map (\<lambda>k. elem3 qv (nat i) (nat j) k - half * dq d nb qv (nat i) (nat j) k) [0..<?nv]
                  = map c [0..<?nv]" for d
      using dq_uniform[OF un a] un a by (auto simp: uniform_def)
    show ?thesis
    proof (cases "idir = 1")
      case True
      have b: "states_body idir nb qv i j t
                 = Inr (set_cell (fst t) (nat (i + 1)) (nat j) (map c [0..<?nv]),
                        set_cell (snd t) (nat i) (nat j) (map c [0..<?nv]))"
        using True by (simp add: states_body_def py_index_int i0 j0 vals Let_def)
      have "I (insert (i, j) D) (set_cell (fst t) (nat (i + 1)) (nat j) (map c [0..<?nv]),
                        set_cell (snd t) (nat i) (nat j) (map c [0..<?nv]))"
        using inv True i0 j0 unfolding I_def
        by (auto simp: elem3_set_cell nat_eq_iff)
      then show ?thesis using b by simp
    next
      case False
      have b: "states_body idir nb qv i j t
                 = Inr (set_cell (fst t) (nat i) (nat (j + 1)) (map c [0..<?nv]),
                        set_cell (snd t) (nat i) (nat j) (map c [0..<?nv]))"
        using False by (simp add: states_body_def py_index_int i0 j0 vals Let_def)
      have "I (insert (i, j) D) (set_cell (fst t) (nat i) (nat (j + 1)) (map c [0..<?nv]),
                        set_cell (snd t) (nat i) (nat j) (map c [0..<?nv]))"
        using inv False i0 j0 unfolding I_def
        by (auto simp: elem3_set_cell nat_eq_iff)
      then show ?thesis using b by simp
    qed
  qed
  have "\<exists>s'. for2 ?ilo ?ihi ?jlo ?jhi (states_body idir nb qv)
           (zeros3 ?qx ?qy ?nv, zeros3 ?qx ?qy ?nv) = Inr s' \<and> I ({?ilo..<?ihi} \<times> {?jlo..<?jhi}) s'"
    by (rule for2_total[where I = I, OF init]) (rule step)
  then obtain Q where Q: "for2 ?ilo ?ihi ?jlo ?jhi (states_body idir nb qv)
           (zeros3 ?qx ?qy ?nv, zeros3 ?qx ?qy ?nv) = Inr Q" "I ({?ilo..<?ihi} \<times> {?jlo..<?jhi}) Q"
    by blast
  have s: "states idir ng ibx iby qv = Inr (fst Q, snd Q)"
    using Q(1) nb by (simp add: states_def Let_def)
  have "elem3 (fst Q) i j k = c k \<and> elem3 (snd Q) i j k = c k"
    if "ng \<le> int i" "int i < int ?qx - ng" "ng \<le> int j" "int j < int ?qy - ng" "k < ?nv" for i j k
    using Q(2) that unfolding I_def by auto
  then show ?thesis using s by blast
qed


definition ones9 :: arr3 where
  "ones9 = \<lparr>qx3 = 9, qy3 = 9, nvar3 = 6, elem3 = (\<lambda>i j k. dbl 1)\<rparr>"

theorem states_uniform_exact_witness:
  "4 \<le> (4::int) \<and> uniform ones9 (\<lambda>k. dbl 1) \<and> py_index (nvar3 ones9) (if (1::int) = 1 then 4 else 5) = Inr 4
   \<and> (\<exists>ql qr. states 1 4 4 5 ones9 = Inr (ql, qr) \<and>
           (\<forall>i j k. 4 \<le> int i \<and> int i < int (qx3 ones9) - 4 \<and> 4 \<le> int j \<and> int j < int (qy3 ones9) - 4
               \<and> k < nvar3 ones9 \<longrightarrow> elem3 ql i j k = dbl 1 \<and> elem3 qr i j k = dbl 1))"
proof -
  have a: "4 \<le> (4::int)" by simp
  have b: "uniform ones9 (\<lambda>k. dbl 1)" by (simp add: uniform_def ones9_def)
  have c: "py_index (nvar3 ones9) (if (1::int) = 1 then 4 else 5) = Inr 4"
    by (simp add: py_index_def ones9_def)
  show ?thesis
    by (rule conjI[OF a conjI[OF b conjI[OF c states_uniform_exact[OF a b c]]]])
qed
section \<open>Properties of the source terms\<close>

lemma sources_total:
  assumes shape: "qx3 Ux = qx3 U" "qy3 Ux = qy3 U" "nvar3 Ux = nvar3 U"
      and slots: "py_index (nvar3 U) (ixmag lay) = Inr kbx" "py_index (nvar3 U) (iymag lay) = Inr kby"
                 "py_index (nvar3 U) (ixmom lay) = Inr kmx" "py_index (nvar3 U) (iymom lay) = Inr kmy"
      and dx: "dx \<noteq> 0"
  shows "\<exists>S. sources idir ng lay dx U Ux = Inr S \<and>
           (\<forall>i j. 1 \<le> i \<and> i + 1 < qx3 U \<and> 1 \<le> j \<and> j + 1 < qy3 U \<longrightarrow>
              elem3 S i j kmy = elem3 U i j kby * normal_jump idir Ux kbx kby i j / dx \<and>
              (kmx \<noteq> kmy \<longrightarrow> elem3 S i j kmx = elem3 U i j kbx * normal_jump idir Ux kbx kby i j / dx))"
proof -
  let ?qx = "qx3 U" and ?qy = "qy3 U"
  let ?ihi = "int ?qx - 1" and ?jhi = "int ?qy - 1"
  define I where "I D S \<longleftrightarrow> qx3 S = ?qx \<and> qy3 S = ?qy \<and> nvar3 S = nvar3 U \<and>
      (\<forall>a b. (int a, int b) \<in> D \<longrightarrow>
         elem3 S a b kmy = elem3 U a b kby * normal_jump idir Ux kbx kby a b / dx \<and>
         (kmx \<noteq> kmy \<longrightarrow> elem3 S a b kmx = elem3 U a b kbx * normal_jump idir Ux kbx kby a b / dx))"
    for D :: "(int \<times> int) set" and S :: arr3
  have init: "I {} (zeros3 ?qx ?qy (nvar3 U))" by (simp add: I_def zeros3_def)
  have step: "\<exists>t'. sources_body idir lay dx U Ux i j t = Inr t' \<and> I (insert (i, j) D) t'"
    if i: "1 \<le> i" "i < ?ihi" and j: "1 \<le> j" "j < ?jhi" and inv: "I D t" for i j D t
  proof -
    have i0: "0 \<le> i" "i < int ?qx" "0 \<le> i + 1" "i + 1 < int ?qx" using i by auto
    have j0: "0 \<le> j" "j < int ?qy" "0 \<le> j + 1" "j + 1 < int ?qy" using j by auto
    have sh: "qx3 t = ?qx" "qy3 t = ?qy" "nvar3 t = nvar3 U" using inv by (auto simp: I_def)
    have n1: "nat (i + 1) = nat i + 1" "nat (j + 1) = nat j + 1" using i0 j0 by auto
    let ?g = "normal_jump idir Ux kbx kby (nat i) (nat j)"
    let ?t' = "set_elem3 (set_elem3 t (nat i) (nat j) kmx (elem3 U (nat i) (nat j) kbx * ?g / dx))
                 (nat i) (nat j) kmy (elem3 U (nat i) (nat j) kby * ?g / dx)"
    have b: "sources_body idir lay dx U Ux i j t = Inr ?t'"
      using dx by (cases "idir = 1")
        (simp_all add: sources_body_def get3_int put3_int i0 j0 shape slots sh npdiv_def
          normal_jump_def n1)
    have "I (insert (i, j) D) ?t'"
      using inv i0 j0 unfolding I_def by (auto simp: elem3_set_elem3 nat_eq_iff)
    then show ?thesis using b by blast
  qed
  have "\<exists>s'. for2 1 ?ihi 1 ?jhi (sources_body idir lay dx U Ux) (zeros3 ?qx ?qy (nvar3 U)) = Inr s'
           \<and> I ({1..<?ihi} \<times> {1..<?jhi}) s'"
    by (rule for2_total[where I = I, OF init]) (rule step)
  then obtain S where S: "for2 1 ?ihi 1 ?jhi (sources_body idir lay dx U Ux) (zeros3 ?qx ?qy (nvar3 U)) = Inr S"
      "I ({1..<?ihi} \<times> {1..<?jhi}) S"
    by blast
  have s: "sources idir ng lay dx U Ux = Inr S"
    using S(1) by (simp add: sources_def Let_def algebra_simps)
  show ?thesis using s S(2) unfolding I_def by auto
qed


text \<open>
  C4, as the code has it. For either sweep direction and every cell of the computed range,
  the x-momentum entry of the source array is the cell-centred x-field times the jump of the
  sweep-normal field across the cell divided by \<^verbatim>\<open>dx\<close>, and the y-momentum entry is the
  cell-centred y-field times the same jump divided by \<^verbatim>\<open>dx\<close>: one gradient factor, each
  entry with its own field component.
\<close>

theorem sources_momentum_entries:
  assumes shape: "qx3 Ux = qx3 U" "qy3 Ux = qy3 U" "nvar3 Ux = nvar3 U"
      and slots: "py_index (nvar3 U) (ixmag lay) = Inr kbx" "py_index (nvar3 U) (iymag lay) = Inr kby"
                 "py_index (nvar3 U) (ixmom lay) = Inr kmx" "py_index (nvar3 U) (iymom lay) = Inr kmy"
                 "kmx \<noteq> kmy"
      and dx: "dx \<noteq> 0"
      and cell: "1 \<le> i" "i + 1 < qx3 U" "1 \<le> j" "j + 1 < qy3 U"
  shows "\<exists>S. sources idir ng lay dx U Ux = Inr S \<and>
           elem3 S i j kmx = elem3 U i j kbx * normal_jump idir Ux kbx kby i j / dx \<and>
           elem3 S i j kmy = elem3 U i j kby * normal_jump idir Ux kbx kby i j / dx"
  using sources_total[OF shape slots(1-4) dx, of idir ng] slots(5) cell by blast

lemma sources_example:
  "\<exists>S. sources 1 4 lay7 (dbl 1) U9 Ux9 = Inr S \<and> elem3 S 4 4 1 = dbl 2 \<and> elem3 S 4 4 2 = dbl 4"
proof -
  have sh: "qx3 Ux9 = qx3 U9" "qy3 Ux9 = qy3 U9" "nvar3 Ux9 = nvar3 U9"
    by (simp_all add: U9_def Ux9_def)
  have sl: "py_index (nvar3 U9) (ixmag lay7) = Inr 4" "py_index (nvar3 U9) (iymag lay7) = Inr 5"
           "py_index (nvar3 U9) (ixmom lay7) = Inr 1" "py_index (nvar3 U9) (iymom lay7) = Inr 2"
    by (simp_all add: lay7_slots U9_def)
  have dx: "dbl 1 \<noteq> 0" by simp
  from sources_total[OF sh sl dx, of 1 4]
  obtain S where S: "sources 1 4 lay7 (dbl 1) U9 Ux9 = Inr S"
    and v: "\<And>i j. 1 \<le> i \<and> i + 1 < qx3 U9 \<and> 1 \<le> j \<and> j + 1 < qy3 U9 \<Longrightarrow>
              elem3 S i j 2 = elem3 U9 i j 5 * normal_jump 1 Ux9 4 5 i j / dbl 1 \<and>
              ((1::nat) \<noteq> 2 \<longrightarrow> elem3 S i j 1 = elem3 U9 i j 4 * normal_jump 1 Ux9 4 5 i j / dbl 1)"
    by blast
  have j: "normal_jump 1 Ux9 4 5 4 4 = dbl 2"
    by (simp add: normal_jump_def Ux9_def dbl_eval del: dbl_0 dbl_1)
  have "elem3 S 4 4 2 = dbl 4" "elem3 S 4 4 1 = dbl 2"
    using v[of 4 4] by (simp_all add: U9_def j dbl_eval del: dbl_0 dbl_1)
  then show ?thesis using S by blast
qed

text \<open>
  The two entries are not one scalar: for an x-sweep over a state with x-field 1 and
  y-field 2 and a jump of 2, the y-momentum entry is 4, not the product 2 of the
  sweep-normal cell field and the jump.
\<close>

theorem sources_same_scalar_counterexample:
  "\<exists>S. sources 1 4 lay7 (dbl 1) U9 Ux9 = Inr S \<and>
     elem3 S 4 4 2 \<noteq> elem3 U9 4 4 4 * (elem3 Ux9 5 4 4 - elem3 Ux9 4 4 4) / dbl 1"
proof -
  from sources_example obtain S where S: "sources 1 4 lay7 (dbl 1) U9 Ux9 = Inr S"
    "elem3 S 4 4 2 = dbl 4" by blast
  have "elem3 U9 4 4 4 * (elem3 Ux9 5 4 4 - elem3 Ux9 4 4 4) / dbl 1 = dbl 2"
    by (simp add: U9_def Ux9_def dbl_eval del: dbl_0 dbl_1)
  moreover have "dbl 4 \<noteq> dbl 2" by (simp add: dbl_eval)
  ultimately show ?thesis using S by auto
qed

theorem sources_momentum_entries_witness:
  "\<exists>S. sources 1 4 lay7 (dbl 1) U9 Ux9 = Inr S \<and>
     elem3 S 4 4 1 = elem3 U9 4 4 4 * normal_jump 1 Ux9 4 5 4 4 / dbl 1 \<and>
     elem3 S 4 4 2 = elem3 U9 4 4 5 * normal_jump 1 Ux9 4 5 4 4 / dbl 1"
proof -
  have sh: "qx3 Ux9 = qx3 U9" "qy3 Ux9 = qy3 U9" "nvar3 Ux9 = nvar3 U9"
    by (simp_all add: U9_def Ux9_def)
  have sl: "py_index (nvar3 U9) (ixmag lay7) = Inr 4" "py_index (nvar3 U9) (iymag lay7) = Inr 5"
           "py_index (nvar3 U9) (ixmom lay7) = Inr 1" "py_index (nvar3 U9) (iymom lay7) = Inr 2"
           "(1::nat) \<noteq> 2"
    by (simp_all add: lay7_slots U9_def)
  have dx: "dbl 1 \<noteq> 0" by simp
  have c: "(1::nat) \<le> 4" "(4::nat) + 1 < qx3 U9" "(1::nat) \<le> 4" "(4::nat) + 1 < qy3 U9"
    by (simp_all add: U9_def)
  show ?thesis by (rule sources_momentum_entries[OF sh sl dx c])
qed

section \<open>Properties of the corner electromotive force\<close>

lemma elem2_broadcast2_same:
  "broadcast2 qx qy A = Inr E \<Longrightarrow> qx2 A = qx \<Longrightarrow> qy2 A = qy \<Longrightarrow> elem2 E i j = elem2 A i j"
  by (auto simp: broadcast2_def)

text \<open>
  C3, as the code has it. For flux fields of the shape of the state, the x-edge field is
  minus the y-field component of the x-direction flux, \<^verbatim>\<open>Ex = -Fx[iymag]\<close>, and the y-edge
  field is the x-field component of the y-direction flux, \<^verbatim>\<open>Ey = Fy[ixmag]\<close>: each is read
  from the transverse-field component of the flux of its own direction.
\<close>

theorem emf_edge_fields:
  assumes "edge_x lay (qx3 U) (qy3 U) Fx = Inr E_x" and "edge_y lay (qx3 U) (qy3 U) Fy = Inr E_y"
      and "qx3 Fx = qx3 U" "qy3 Fx = qy3 U" "qx3 Fy = qx3 U" "qy3 Fy = qy3 U"
      and "py_index (nvar3 Fx) (iymag lay) = Inr ky" and "py_index (nvar3 Fy) (ixmag lay) = Inr kx"
  shows "elem2 E_x i j = - elem3 Fx i j ky \<and> elem2 E_y i j = elem3 Fy i j kx"
  using assms by (auto simp: edge_x_def edge_y_def dest!: elem2_broadcast2_same)

lemma edges_example:
  "edge_x lay7 9 9 Fx9 = Inr \<lparr>qx2 = 9, qy2 = 9, elem2 = (\<lambda>i j. - dbl 5)\<rparr>"
  "edge_y lay7 9 9 Fy9 = Inr \<lparr>qx2 = 9, qy2 = 9, elem2 = (\<lambda>i j. dbl 7)\<rparr>"
  by (simp_all add: edge_x_def edge_y_def lay7_slots Fx9_def Fy9_def broadcast2_def)

text \<open>
  The x-edge field is not minus the y-field component of the y-direction flux, and the
  y-edge field is not the y-field component of the x-direction flux.
\<close>

theorem emf_edge_fields_counterexample:
  "\<exists>E_x E_y. edge_x lay7 9 9 Fx9 = Inr E_x \<and> edge_y lay7 9 9 Fy9 = Inr E_y \<and>
       elem2 E_x 4 4 \<noteq> - elem3 Fy9 4 4 5 \<and> elem2 E_y 4 4 \<noteq> elem3 Fx9 4 4 5"
proof -
  have "- dbl 5 \<noteq> - elem3 Fy9 4 4 5" "dbl 7 \<noteq> elem3 Fx9 4 4 5"
    by (simp_all add: Fx9_def Fy9_def dbl_eval del: dbl_0 dbl_1)
  then show ?thesis using edges_example by simp
qed

theorem emf_edge_fields_witness:
  "edge_x lay7 (qx3 U9) (qy3 U9) Fx9 = Inr \<lparr>qx2 = 9, qy2 = 9, elem2 = (\<lambda>i j. - dbl 5)\<rparr>
   \<and> elem2 \<lparr>qx2 = 9, qy2 = 9, elem2 = (\<lambda>i j. - dbl 5)\<rparr> 4 4 = - elem3 Fx9 4 4 5
   \<and> elem2 \<lparr>qx2 = 9, qy2 = 9, elem2 = (\<lambda>i j. dbl 7)\<rparr> 4 4 = elem3 Fy9 4 4 4"
proof -
  have a: "edge_x lay7 (qx3 U9) (qy3 U9) Fx9 = Inr \<lparr>qx2 = 9, qy2 = 9, elem2 = (\<lambda>i j. - dbl 5)\<rparr>"
          "edge_y lay7 (qx3 U9) (qy3 U9) Fy9 = Inr \<lparr>qx2 = 9, qy2 = 9, elem2 = (\<lambda>i j. dbl 7)\<rparr>"
    using edges_example by (simp_all add: U9_def)
  have sh: "qx3 Fx9 = qx3 U9" "qy3 Fx9 = qy3 U9" "qx3 Fy9 = qx3 U9" "qy3 Fy9 = qy3 U9"
    by (simp_all add: U9_def Fx9_def Fy9_def)
  have sl: "py_index (nvar3 Fx9) (iymag lay7) = Inr 5" "py_index (nvar3 Fy9) (ixmag lay7) = Inr 4"
    by (simp_all add: lay7_slots Fx9_def Fy9_def)
  show ?thesis by (rule conjI[OF a(1) emf_edge_fields[OF a sh sl]])
qed

text \<open>
  C10. With \<^verbatim>\<open>use_ref=True\<close> the result of \<open>emf\<close> depends on the state \<^verbatim>\<open>U\<close> through its
  shape only: two calls that agree on everything but the values of \<^verbatim>\<open>U\<close> return the same
  corner field (or stop with the same fault).
\<close>

theorem emf_reference_ignores_state:
  assumes "qx3 U' = qx3 U" and "qy3 U' = qy3 U"
  shows "emf ng lay dx dy U' Fx Fy Eref True = emf ng lay dx dy U Fx Fy Eref True"
  using assms by (simp add: emf_def ref_emf_def)

theorem emf_reference_ignores_state_witness:
  "qx3 U9 = qx3 Ux9 \<and> qy3 U9 = qy3 Ux9 \<and> elem3 U9 5 0 4 \<noteq> elem3 Ux9 5 0 4 \<and>
   emf 4 lay7 (dbl 1) (dbl 1) U9 Fx9 Fy9 (zeros2 9 9) True
     = emf 4 lay7 (dbl 1) (dbl 1) Ux9 Fx9 Fy9 (zeros2 9 9) True"
proof -
  have a: "qx3 U9 = qx3 Ux9" and b: "qy3 U9 = qy3 Ux9" by (simp_all add: U9_def Ux9_def)
  have c: "elem3 U9 5 0 4 \<noteq> elem3 Ux9 5 0 4"
    by (simp add: U9_def Ux9_def dbl_eval del: dbl_0 dbl_1)
  show ?thesis
    by (rule conjI[OF a conjI[OF b conjI[OF c emf_reference_ignores_state[OF a b]]]])
qed

section \<open>Properties of the Riemann solver\<close>

text \<open>
  C9. Two calls of \<open>riemann_adiabatic\<close> that differ only in the flags \<^verbatim>\<open>lower_solid\<close> and
  \<^verbatim>\<open>upper_solid\<close> return the same flux array (or stop with the same fault): the flags are
  never read.
\<close>

theorem riemann_solid_flags_inert:
  "riemann_adiabatic idir ng lay nspec lower_solid upper_solid gamma U_l U_r Bx By
     = riemann_adiabatic idir ng lay nspec lower_solid' upper_solid' gamma U_l U_r Bx By"
  by (simp add: riemann_adiabatic_def)

lemma zero_le_max0 [simp]: "0 \<le> max a (0::double)"
  by simp

lemma riemann_bounds_Inr_sign:
  assumes "riemann_bounds idir gamma lay s ul ur pr = Inr (bp, bm)"
  shows "bm \<le> 0 \<and> 0 \<le> bp"
proof -
  from assms obtain x y where "bp = max x 0" "bm = min y 0"
    unfolding riemann_bounds_def bnd_eq_Inr_iff by blast
  then show ?thesis by simp
qed

text \<open>
  C2. Whenever the two signal speed bounds of an interface are computed (no division by
  zero and no square root of a negative number on the way: positive densities, real
  characteristic speeds), \<open>bp = max (max (maxl evals) (un_r + cf_r)) 0\<close> is not negative and
  \<open>bm = min (min (minl evals) (un_l - cf_l)) 0\<close> is not positive.
\<close>

theorem riemann_bounds_sign:
  assumes "riemann_bounds idir gamma lay s ul ur pr = Inr (bp, bm)"
  shows "bm \<le> 0 \<and> 0 \<le> bp"
  using assms by (rule riemann_bounds_Inr_sign)

lemma dbl0_ops:
  "dbl 0 / a = dbl 0" "dbl 0 * a = dbl 0" "a * dbl 0 = dbl 0" "a + dbl 0 = a" "dbl 0 + a = a"
  "a - dbl 0 = a"
  by simp_all

lemma val_smallp: "val smallp = rnd64 (1 / 10 ^ 10)"
  by (simp add: smallp_def val_arith)

lemma smallp_pos: "0 < smallp"
  by (simp add: val_order val_arith val_smallp rnd64_pos)

lemma smallc_pos: "0 < smallc"
  by (simp add: val_order val_arith smallc_def rnd64_pos)

lemma smallp_le_dbl: "x \<in> F64 \<Longrightarrow> 1 / 10 ^ 10 \<le> x \<Longrightarrow> smallp \<le> dbl x"
  using rnd64_mono[of "1 / 10 ^ 10" x] by (simp add: val_order val_arith val_smallp rnd64_id)

lemma smallc_le_dbl: "x \<in> F64 \<Longrightarrow> 1 / 10 ^ 10 \<le> x \<Longrightarrow> smallc \<le> dbl x"
  using rnd64_mono[of "1 / 10 ^ 10" x] by (simp add: val_order val_arith smallc_def rnd64_id)

lemma max_smallp: "x \<in> F64 \<Longrightarrow> 1 / 10 ^ 10 \<le> x \<Longrightarrow> max (dbl x) smallp = dbl x"
  using smallp_le_dbl[of x] by (simp add: max_def)

lemma max_smallc: "x \<in> F64 \<Longrightarrow> 1 / 10 ^ 10 \<le> x \<Longrightarrow> max smallc (dbl x) = dbl x"
  using smallc_le_dbl[of x] by (simp add: max_def)

lemma F64_tenth: "(3602879701896397 / 36028797018963968 :: real) \<in> F64"
  using F64_I[of 3602879701896397 "- 55"] by (simp add: power_int_minus field_simps)

lemma F64_fifth: "(3602879701896397 / 18014398509481984 :: real) \<in> F64"
  using F64_I[of 3602879701896397 "- 54"] by (simp add: power_int_minus field_simps)

lemma F64_fifth_up: "(7205759403792795 / 36028797018963968 :: real) \<in> F64"
  using F64_I[of 7205759403792795 "- 55"] by (simp add: power_int_minus field_simps)

lemmas F64_consts = F64_tenth F64_fifth F64_fifth_up

lemma primsA_eval: "riemann_prims 1 (dbl 2) slots7 stateA stateA 0 = Inr primsA"
  by (simp add: riemann_prims_def stateA_def slots7_def pdiv_def psqrt_def thermal_pressure_def
      sound_speed_def half_def primsA_def Let_def dbl_eval max_smallp max_smallc tenth_def
      F64_consts del: dbl_0 dbl_1)

lemma evalsA: "calc_evals 1 [1, dbl 2, 0, dbl (5 / 2), 0, 0, tenth] (dbl 2) slots7 0 1
   = Inr [1, dbl 2, dbl 2, dbl 2, dbl 2, dbl 2, dbl 3]"
  by (simp add: calc_evals_def slots7_def pdiv_def psqrt_def half_def Let_def dbl_eval dbl0_ops
      del: dbl_0 dbl_1)

lemma fastA: "fast_speed 1 0 0 = Inr 1"
  by (simp add: fast_speed_def psqrt_def half_def dbl_eval del: dbl_0 dbl_1)

lemma roe_averageA: "roe_average (dbl 2) lay7 slots7 stateA stateA primsA = Inr [1, dbl 2, 0, 1, 0, 0, tenth]"
  by (simp add: roe_average_def stateA_def slots7_def primsA_def pdiv_def psqrt_def half_def
      Let_def dbl_eval set_slice_def slice_pos_def lay7_def tenth_def F64_consts dbl0_ops
      del: dbl_0 dbl_1)

lemma roe_conservedA: "roe_conserved (dbl 2) lay7 slots7 [1, dbl 2, 0, 1, 0, 0, tenth]
     = Inr [1, dbl 2, 0, dbl (5 / 2), 0, 0, tenth]"
  by (simp add: roe_conserved_def slots7_def pdiv_def half_def
      Let_def dbl_eval set_slice_def slice_pos_def lay7_def tenth_def F64_consts dbl0_ops
      del: dbl_0 dbl_1)

lemma roe_correctionsA: "roe_corrections 1 slots7 primsA [1, dbl 2, 0, dbl (5 / 2), 0, 0, tenth] = Inr (0, 1)"
  by (simp add: roe_corrections_def slots7_def primsA_def pdiv_def psqrt_def half_def
      Let_def dbl_eval dbl0_ops del: dbl_0 dbl_1)

lemma side_fastA: "side_fast_speed 1 1 1 0 0 = Inr 1"
  by (simp add: side_fast_speed_def pdiv_def fastA)

lemma boundsA_eval: "riemann_bounds 1 (dbl 2) lay7 slots7 stateA stateA primsA = Inr (dbl 3, 0)"
proof -
  have p: "rho_l primsA = 1" "rho_r primsA = 1" "c_l primsA = 1" "c_r primsA = 1"
    "Bx_l primsA = 0" "By_l primsA = 0" "Bx_r primsA = 0" "By_r primsA = 0"
    "un_l primsA = dbl 2" "un_r primsA = dbl 2"
    by (simp_all add: primsA_def)
  show ?thesis
    by (simp add: riemann_bounds_def roe_averageA roe_conservedA roe_correctionsA evalsA p side_fastA
        double_eq_iff val_max val_min val_arith rnd64_id)
qed

lemma fluxA_eval: "consFlux 1 (dbl 2) lay7 1 stateA = Inr fluxA"
  by (simp add: consFlux_def stateA_def fluxA_def resolve_lay7 slots7_def pdiv_def half_def Let_def
      dbl_eval set_slice_def slice_pos_def lay7_irhoX tenth_def fifth_def F64_consts del: dbl_0 dbl_1)

lemma rnd_three_fifths:
  "rnd64 (3 * (3602879701896397 / 18014398509481984)) = 5404319552844596 / 9007199254740992"
  by (subst rnd64_eval[where k = "- 1"]) (simp_all add: rte_def Let_def power_int_minus)

lemma rnd_third:
  "rnd64 ((5404319552844596 / 9007199254740992) / 3) = 7205759403792795 / 36028797018963968"
  by (subst rnd64_eval[where k = "- 3"]) (simp_all add: rte_def Let_def power_int_minus)

lemma three_fifths: "dbl 3 * fifth / dbl 3 = fifth_up"
proof -
  have a: "val (dbl 3 * fifth) = 5404319552844596 / 9007199254740992"
    using rnd_three_fifths by (simp add: fifth_def val_arith rnd64_id F64_consts)
  have "val (dbl 3 * fifth / dbl 3) = rnd64 (val (dbl 3 * fifth) / val (dbl 3))"
    by (simp only: divide_double.rep_eq)
  also have "\<dots> = rnd64 ((5404319552844596 / 9007199254740992) / 3)"
    by (simp only: a) (simp add: val_arith rnd64_id)
  also have "\<dots> = 7205759403792795 / 36028797018963968" by (rule rnd_third)
  finally show ?thesis by (simp add: double_eq_iff fifth_up_def val_arith rnd64_id F64_consts)
qed

lemma three_exact: "x \<in> F64 \<Longrightarrow> 3 * x \<in> F64 \<Longrightarrow> dbl 3 * dbl x / dbl 3 = dbl x"
  by (simp add: dbl_eval)

lemma dbl3_neq0: "dbl 3 \<noteq> 0"
  by (simp add: double_eq_iff val_arith)

lemma hlleA_eval: "hlle_flux (dbl 3) 0 fluxA fluxA stateA stateA = Inr cellA"
proof -
  have l: "length stateA = 7" by (simp add: stateA_def)
  have c: "dbl 3 * dbl 2 / dbl 3 = dbl 2" "dbl 3 * dbl (9 / 2) / dbl 3 = dbl (9 / 2)"
    "dbl 3 * dbl 6 / dbl 3 = dbl 6"
    by (simp_all add: three_exact)
  have u: "[0..<7] = [0, 1, 2, 3, 4, 5, 6::nat]" by (simp add: upt_rec)
  show ?thesis
    by (simp add: hlle_flux_def pdiv_def dbl3_neq0 l u fluxA_def cellA_def c three_fifths)
qed

lemma riemann_cellA: "riemann_cell 1 (dbl 2) lay7 1 stateA stateA 0 = Inr cellA"
proof -
  have "length stateA = 7" by (simp add: stateA_def)
  then show ?thesis
    by (simp add: riemann_cell_def resolve_lay7 primsA_eval boundsA_eval fluxA_eval hlleA_eval)
qed

lemma cellA_differs: "cellA ! 6 \<noteq> fluxA ! 6"
  by (simp add: cellA_def fluxA_def fifth_def fifth_up_def dbl_eq_iff F64_consts)

lemma length_cell [simp]: "length (cell A i j) = nvar3 A"
  by (simp add: cell_def)

lemma nth_cell [simp]: "k < nvar3 A \<Longrightarrow> cell A i j ! k = elem3 A i j k"
  by (simp add: cell_def)

lemma cell_set_cell_same: "length v = nvar3 A \<Longrightarrow> cell (set_cell A i j v) i j = v"
  by (auto simp: cell_def elem3_set_cell intro: nth_equalityI)

lemma cell_set_cell_other: "(a, b) \<noteq> (i, j) \<Longrightarrow> cell (set_cell A i j v) a b = cell A a b"
  by (auto simp: cell_def elem3_set_cell)

lemma py_index_nonneg: "py_index n i = Inr a \<Longrightarrow> 0 \<le> i \<Longrightarrow> a = nat i \<and> i < int n"
  by (auto simp: py_index_def split: if_splits)

lemma get2_nonneg: "get2 A i j = Inr x \<Longrightarrow> 0 \<le> i \<Longrightarrow> 0 \<le> j \<Longrightarrow> x = elem2 A (nat i) (nat j)"
  by (auto simp: get2_def bnd_eq_Inr_iff dest!: py_index_nonneg)

lemma get2_int:
  "0 \<le> i \<Longrightarrow> i < int (qx2 A) \<Longrightarrow> 0 \<le> j \<Longrightarrow> j < int (qy2 A) \<Longrightarrow> get2 A i j = Inr (elem2 A (nat i) (nat j))"
  by (simp add: get2_def py_index_int)

lemma length_hlle_flux: "hlle_flux bp bm f_l f_r ul ur = Inr F \<Longrightarrow> length F = length ul"
  by (auto simp: hlle_flux_def bnd_eq_Inr_iff)

lemma length_riemann_cell:
  "riemann_cell idir gamma lay nspec ul ur bn = Inr F \<Longrightarrow> length F = length ul"
  by (auto simp: riemann_cell_def bnd_eq_Inr_iff split: if_splits dest: length_hlle_flux)

lemma riemann_adiabatic_cells:
  assumes ret: "riemann_adiabatic idir ng lay nspec ls us gamma U_l U_r Bx By = Inr F"
      and ng: "2 \<le> ng"
      and cell: "ng - 2 \<le> int i" "int i < int (qx3 U_l) - ng + 2"
                "ng - 2 \<le> int j" "int j < int (qy3 U_l) - ng + 2"
  shows "riemann_cell idir gamma lay nspec (cell U_l i j) (cell U_r i j)
           (elem2 (if idir = 1 then Bx else By) i j) = Inr (cell F i j)"
proof -
  let ?B = "if idir = 1 then Bx else By"
  let ?ilo = "ng - 2" and ?ihi = "ng + (int (qx3 U_l) - 2 * ng) + 2"
  let ?jlo = "ng - 2" and ?jhi = "ng + (int (qy3 U_l) - 2 * ng) + 2"
  define I where "I D G \<longleftrightarrow> nvar3 G = nvar3 U_l \<and>
      (\<forall>a b. (int a, int b) \<in> D \<longrightarrow>
         riemann_cell idir gamma lay nspec (cell U_l a b) (cell U_r a b) (elem2 ?B a b) = Inr (cell G a b))"
    for D :: "(int \<times> int) set" and G :: arr3
  have init: "I {} (zeros3 (qx3 U_l) (qy3 U_l) (nvar3 U_l))" by (simp add: I_def zeros3_def)
  have step: "I (insert (a, b) D) t'"
    if a: "?ilo \<le> a" and b: "?jlo \<le> b" and nin: "(a, b) \<notin> D" and inv: "I D t"
      and body: "riemann_body idir gamma lay nspec U_l U_r Bx By a b t = Inr t'" for a b D t t'
  proof -
    have a0: "0 \<le> a" and b0: "0 \<le> b" using a b ng by auto
    from body obtain f bn where bn: "get2 ?B a b = Inr bn"
      and f: "riemann_cell idir gamma lay nspec (cell U_l (nat a) (nat b)) (cell U_r (nat a) (nat b)) bn = Inr f"
      and t': "t' = set_cell t (nat a) (nat b) f"
      using a0 b0 by (auto simp: riemann_body_def bnd_eq_Inr_iff dest!: py_index_nonneg)
    have bn': "bn = elem2 ?B (nat a) (nat b)" using get2_nonneg[OF bn a0 b0] .
    have lf: "length f = nvar3 t" using length_riemann_cell[OF f] inv by (simp add: I_def)
    have other: "(c, d) \<noteq> (nat a, nat b)" if "(int c, int d) \<in> D" for c d
      using that nin a0 b0 by auto
    show ?thesis
      unfolding I_def t'
    proof (intro conjI allI impI)
      show "nvar3 (set_cell t (nat a) (nat b) f) = nvar3 U_l" using inv by (simp add: I_def)
    next
      fix c d
      assume cd: "(int c, int d) \<in> insert (a, b) D"
      show "riemann_cell idir gamma lay nspec (cell U_l c d) (cell U_r c d) (elem2 ?B c d)
              = Inr (cell (set_cell t (nat a) (nat b) f) c d)"
      proof (cases "(int c, int d) = (a, b)")
        case True
        then have "c = nat a" "d = nat b" by auto
        then show ?thesis using f bn' lf by (simp add: cell_set_cell_same)
      next
        case False
        then have "(int c, int d) \<in> D" using cd by auto
        then show ?thesis using inv other[of c d] by (simp add: I_def cell_set_cell_other)
      qed
    qed
  qed
  have r: "for2 ?ilo ?ihi ?jlo ?jhi (riemann_body idir gamma lay nspec U_l U_r Bx By)
             (zeros3 (qx3 U_l) (qy3 U_l) (nvar3 U_l)) = Inr F"
    using ret by (simp add: riemann_adiabatic_def Let_def)
  have "I ({?ilo..<?ihi} \<times> {?jlo..<?jhi}) F"
    by (rule for2_partial[where I = I, OF r init]) (rule step)
  moreover have "(int i, int j) \<in> {?ilo..<?ihi} \<times> {?jlo..<?jhi}" using cell by auto
  ultimately show ?thesis by (auto simp: I_def)
qed

lemma riemann_adiabatic_total:
  assumes ng: "2 \<le> ng"
      and shape: "qx3 U_r = qx3 U_l" "qy3 U_r = qy3 U_l"
                 "qx2 (if idir = 1 then Bx else By) = qx3 U_l" "qy2 (if idir = 1 then Bx else By) = qy3 U_l"
      and cells: "\<And>i j. ng - 2 \<le> int i \<Longrightarrow> int i < int (qx3 U_l) - ng + 2 \<Longrightarrow>
                   ng - 2 \<le> int j \<Longrightarrow> int j < int (qy3 U_l) - ng + 2 \<Longrightarrow>
                   \<exists>f. riemann_cell idir gamma lay nspec (cell U_l i j) (cell U_r i j)
                     (elem2 (if idir = 1 then Bx else By) i j) = Inr f"
  shows "\<exists>F. riemann_adiabatic idir ng lay nspec ls us gamma U_l U_r Bx By = Inr F"
proof -
  let ?B = "if idir = 1 then Bx else By"
  let ?ilo = "ng - 2" and ?ihi = "ng + (int (qx3 U_l) - 2 * ng) + 2"
  let ?jlo = "ng - 2" and ?jhi = "ng + (int (qy3 U_l) - 2 * ng) + 2"
  have step: "\<exists>t'. riemann_body idir gamma lay nspec U_l U_r Bx By a b t = Inr t' \<and> True"
    if a: "?ilo \<le> a" "a < ?ihi" and b: "?jlo \<le> b" "b < ?jhi" for a b and t :: arr3
  proof -
    have a0: "0 \<le> a" "a < int (qx3 U_l)" and b0: "0 \<le> b" "b < int (qy3 U_l)" using a b ng by auto
    from cells[of "nat a" "nat b"] a b a0 b0
    obtain f where f: "riemann_cell idir gamma lay nspec (cell U_l (nat a) (nat b)) (cell U_r (nat a) (nat b))
                     (elem2 ?B (nat a) (nat b)) = Inr f" by auto
    have g: "get2 ?B a b = Inr (elem2 ?B (nat a) (nat b))"
      using a0 b0 shape by (intro get2_int) auto
    show ?thesis
      using a0 b0 shape f g by (simp add: riemann_body_def py_index_int)
  qed
  have "\<exists>s'. for2 ?ilo ?ihi ?jlo ?jhi (riemann_body idir gamma lay nspec U_l U_r Bx By)
             (zeros3 (qx3 U_l) (qy3 U_l) (nvar3 U_l)) = Inr s' \<and> True"
    by (rule for2_total[where I = "\<lambda>D t. True"]) (use step in auto)
  then show ?thesis by (simp add: riemann_adiabatic_def Let_def)
qed

lemma cell_gridA [simp]: "cell gridA i j = stateA"
  by (simp add: cell_def gridA_def stateA_def upt_rec)

lemma shape_gridA [simp]: "qx3 gridA = 9" "qy3 gridA = 9" "nvar3 gridA = 7"
  by (simp_all add: gridA_def)

lemma zeros2_simps [simp]: "qx2 (zeros2 m n) = m" "qy2 (zeros2 m n) = n" "elem2 (zeros2 m n) i j = 0"
  by (simp_all add: zeros2_def)

lemma riemann_gridA:
  "\<exists>F. riemann_adiabatic 1 4 lay7 1 0 0 (dbl 2) gridA gridA (zeros2 9 9) (zeros2 9 9) = Inr F"
  by (rule riemann_adiabatic_total) (simp_all add: riemann_cellA)

lemma riemann_prims_dens:
  assumes "riemann_prims idir gamma s ul ur bn = Inr pr"
  shows "ul ! sdens s \<noteq> 0 \<and> ur ! sdens s \<noteq> 0"
  using assms
  by (auto simp: riemann_prims_def Let_def bnd_eq_Inr_iff pdiv_def split: if_splits)

lemma dsub_eq_0_iff: "a - b = 0 \<longleftrightarrow> a = (b::double)"
  by (simp add: double_eq_iff minus_double.rep_eq zero_double.rep_eq)

lemma hlle_flux_equal_states:
  "hlle_flux bp bm f f u u =
     (if bp = bm then Inl ZeroDivisionError
      else Inr (map (\<lambda>k. (bp * f ! k - bm * f ! k) / (bp - bm)) [0..<length u]))"
  by (simp add: hlle_flux_def pdiv_def dsub_eq_0_iff)

lemma consFlux_Inr:
  "resolve (length U) lay = Inr s \<Longrightarrow> U ! sdens s \<noteq> 0 \<Longrightarrow> \<exists>f. consFlux idir gamma lay naux U = Inr f"
  by (simp add: consFlux_def pdiv_def Let_def)

lemma riemann_cell_equal_states:
  assumes s: "resolve (length u) lay = Inr s"
      and pr: "riemann_prims idir gamma s u u bn = Inr pr"
      and bd: "riemann_bounds idir gamma lay s u u pr = Inr (bp, bm)"
  shows "\<exists>f. consFlux idir gamma lay nspec u = Inr f
           \<and> riemann_cell idir gamma lay nspec u u bn =
               (if bp = bm then Inl ZeroDivisionError
                else Inr (map (\<lambda>k. (bp * f ! k - bm * f ! k) / (bp - bm)) [0..<length u]))"
proof -
  have "u ! sdens s \<noteq> 0" using riemann_prims_dens[OF pr] by simp
  from consFlux_Inr[OF s this] obtain f where f: "consFlux idir gamma lay nspec u = Inr f"
    by blast
  have "riemann_cell idir gamma lay nspec u u bn = hlle_flux bp bm f f u u"
    by (simp add: riemann_cell_def s pr bd f)
  then show ?thesis using f by (simp add: hlle_flux_equal_states)
qed

lemma dmult_nonneg: "0 \<le> a \<Longrightarrow> 0 \<le> b \<Longrightarrow> 0 \<le> a * (b::double)"
  by (simp add: val_order val_arith rnd64_nonneg)

lemma ddiv_nonneg: "0 \<le> a \<Longrightarrow> 0 < b \<Longrightarrow> 0 \<le> a / (b::double)"
  by (simp add: val_order val_arith rnd64_nonneg)

lemma dadd_nonneg: "0 \<le> a \<Longrightarrow> 0 \<le> b \<Longrightarrow> 0 \<le> a + (b::double)"
  by (simp add: val_order val_arith rnd64_nonneg)

lemma dsqrt_nonneg: "0 \<le> a \<Longrightarrow> 0 \<le> dsqrt a"
  by (simp add: val_order val_arith rnd64_nonneg)

lemma sound_speed_total:
  assumes "0 < rho" "0 \<le> gamma" "smallp \<le> p"
  shows "sound_speed gamma p rho = Inr (max smallc (dsqrt (gamma * p / rho)))"
proof -
  have "0 \<le> p" using assms(3) smallp_pos by simp
  then have "0 \<le> gamma * p / rho" using assms by (intro ddiv_nonneg dmult_nonneg)
  then have "\<not> gamma * p / rho < 0" by simp
  moreover have "rho \<noteq> 0" using assms(1) by auto
  ultimately show ?thesis by (simp add: sound_speed_def pdiv_def psqrt_def)
qed

lemma dmult_pos: "0 < a \<Longrightarrow> 0 < b \<Longrightarrow> 0 < a * (b::double)"
  by (simp add: val_order val_arith rnd64_pos)

lemma dadd_pos_nonneg: "0 < a \<Longrightarrow> 0 \<le> b \<Longrightarrow> 0 < a + (b::double)"
  by (simp add: val_order val_arith rnd64_pos add_pos_nonneg)

lemma dsqrt_pos: "0 < a \<Longrightarrow> 0 < dsqrt a"
  by (simp add: val_order val_arith dsqrt.rep_eq rnd64_pos)

lemma half_pos: "0 < half"
  by (simp add: half_def val_order val_arith rnd64_pos)

lemma psqrt_Inr_nonneg: "psqrt a = Inr r \<Longrightarrow> 0 \<le> a \<and> r = dsqrt a"
  by (auto simp: psqrt_def split: if_splits)

lemma fast_speed_pos:
  assumes "fast_speed c cA2 cAx2 = Inr cf" and "0 < c" and "0 \<le> cA2"
  shows "0 < cf"
proof -
  from assms(1) obtain d where d: "psqrt ((c * c + cA2) * (c * c + cA2) - dbl 4 * (c * c) * cAx2) = Inr d"
    and cf: "psqrt (half * (c * c + cA2 + d)) = Inr cf"
    by (auto simp: fast_speed_def bnd_eq_Inr_iff)
  have d0: "0 \<le> d" using psqrt_Inr_nonneg[OF d] by (simp add: dsqrt_nonneg)
  have "0 < c * c" using assms(2) by (intro dmult_pos)
  then have "0 < c * c + cA2" using assms(3) by (rule dadd_pos_nonneg)
  then have "0 < c * c + cA2 + d" using d0 by (rule dadd_pos_nonneg)
  then have "0 < half * (c * c + cA2 + d)" by (rule dmult_pos[OF half_pos])
  then show ?thesis using psqrt_Inr_nonneg[OF cf] by (simp add: dsqrt_pos)
qed

lemma side_fast_speed_pos:
  assumes "side_fast_speed idir rho c Bx By = Inr cf" and "0 < rho" and "0 < c"
  shows "0 < cf"
proof -
  let ?bx = "Bx / sqrt4pi" and ?by = "By / sqrt4pi"
  from assms(1) obtain cA2 cAx2 where a: "pdiv (?bx * ?bx + ?by * ?by) rho = Inr cA2"
    and f: "fast_speed c cA2 cAx2 = Inr cf"
    by (auto simp: side_fast_speed_def Let_def bnd_eq_Inr_iff)
  have sq: "0 \<le> x * x" for x :: double
    by (simp add: val_order val_arith rnd64_nonneg)
  have "0 \<le> ?bx * ?bx + ?by * ?by" by (intro dadd_nonneg sq)
  then have "0 \<le> cA2" using a assms(2) by (auto simp: pdiv_def ddiv_nonneg split: if_splits)
  then show ?thesis using f assms(3) by (rule fast_speed_pos[rotated 2])
qed

lemma sound_speed_floor: "sound_speed gamma p rho = Inr c \<Longrightarrow> smallc \<le> c"
  by (auto simp: sound_speed_def bnd_eq_Inr_iff)

lemma riemann_prims_same:
  assumes "riemann_prims idir gamma s u u bn = Inr pr"
  shows "rho_l pr = u ! sdens s \<and> rho_r pr = rho_l pr \<and> un_r pr = un_l pr \<and> c_r pr = c_l pr
         \<and> Bx_r pr = Bx_l pr \<and> By_r pr = By_l pr \<and> smallc \<le> c_l pr \<and> rho_l pr \<noteq> 0"
proof -
  from assms obtain unl utl cl where
    "pdiv (u ! (if idir = 1 then sxmom s else symom s)) (u ! sdens s) = Inr unl"
    and "sound_speed gamma
          (max (thermal_pressure gamma (u ! sener s) (u ! sdens s) unl utl
             ((if idir = 1 then bn else u ! sxmag s) * (if idir = 1 then bn else u ! sxmag s)
               + (if idir = 1 then u ! symag s else bn) * (if idir = 1 then u ! symag s else bn))) smallp)
          (u ! sdens s) = Inr cl"
    and "pr = \<lparr>rho_l = u ! sdens s, un_l = unl, ut_l = utl, rho_r = u ! sdens s, un_r = unl, ut_r = utl,
             Bx_l = (if idir = 1 then bn else u ! sxmag s), Bx_r = (if idir = 1 then bn else u ! sxmag s),
             By_l = (if idir = 1 then u ! symag s else bn), By_r = (if idir = 1 then u ! symag s else bn),
             B2_l = (if idir = 1 then bn else u ! sxmag s) * (if idir = 1 then bn else u ! sxmag s)
               + (if idir = 1 then u ! symag s else bn) * (if idir = 1 then u ! symag s else bn),
             B2_r = (if idir = 1 then bn else u ! sxmag s) * (if idir = 1 then bn else u ! sxmag s)
               + (if idir = 1 then u ! symag s else bn) * (if idir = 1 then u ! symag s else bn),
             p_l = max (thermal_pressure gamma (u ! sener s) (u ! sdens s) unl utl
             ((if idir = 1 then bn else u ! sxmag s) * (if idir = 1 then bn else u ! sxmag s)
               + (if idir = 1 then u ! symag s else bn) * (if idir = 1 then u ! symag s else bn))) smallp,
             p_r = max (thermal_pressure gamma (u ! sener s) (u ! sdens s) unl utl
             ((if idir = 1 then bn else u ! sxmag s) * (if idir = 1 then bn else u ! sxmag s)
               + (if idir = 1 then u ! symag s else bn) * (if idir = 1 then u ! symag s else bn))) smallp,
             c_l = cl, c_r = cl\<rparr>"
    unfolding riemann_prims_def Let_def bnd_eq_Inr_iff by auto
  then show ?thesis
    using sound_speed_floor by (auto simp: pdiv_def split: if_splits)
qed

lemma roe_average_dens: "roe_average gamma lay s ul ur pr = Inr q \<Longrightarrow> 0 \<le> rho_l pr"
  unfolding roe_average_def Let_def bnd_eq_Inr_iff
  by (auto dest: psqrt_Inr_nonneg)

lemma dadd_le_0D: "a + b \<le> (0::double) \<Longrightarrow> val a + val b \<le> 0"
  using rnd64_pos[of "val a + val b"] by (auto simp: val_order val_arith not_less[symmetric])

lemma dsub_ge_0D: "(0::double) \<le> a - b \<Longrightarrow> val b \<le> val a"
  using rnd64_neg[of "val a - val b"] by (auto simp: val_order val_arith not_less[symmetric])

lemma equal_states_bounds_differ:
  assumes pr: "riemann_prims idir gamma s u u bn = Inr pr"
      and bd: "riemann_bounds idir gamma lay s u u pr = Inr (bp, bm)"
  shows "bp \<noteq> bm"
proof
  assume e: "bp = bm"
  note p = riemann_prims_same[OF pr]
  from bd obtain q ev cfl cfr where q: "roe_average gamma lay s u u pr = Inr q"
    and l: "side_fast_speed idir (rho_l pr) (c_l pr) (Bx_l pr) (By_l pr) = Inr cfl"
    and r: "side_fast_speed idir (rho_r pr) (c_r pr) (Bx_r pr) (By_r pr) = Inr cfr"
    and bp: "bp = max (max (maxl ev) (un_r pr + cfr)) 0"
    and bm: "bm = min (min (minl ev) (un_l pr - cfl)) 0"
    unfolding riemann_bounds_def bnd_eq_Inr_iff by auto
  have same: "cfr = cfl" using l r p by simp
  have rho: "0 < rho_l pr" using roe_average_dens[OF q] p by auto
  have c: "0 < c_l pr" using p smallc_pos by auto
  have cf: "0 < val cfl" using side_fast_speed_pos[OF l rho c] by (simp add: val_order val_arith)
  have z: "bp = 0" "bm = 0" using riemann_bounds_Inr_sign[OF bd] e by auto
  have "un_r pr + cfr \<le> 0" using z(1) unfolding bp by (simp add: max_def split: if_splits)
  then have 1: "val (un_l pr) + val cfl \<le> 0" using dadd_le_0D same p by simp
  have "0 \<le> un_l pr - cfl" using z(2) unfolding bm by (simp add: min_def split: if_splits)
  then have 2: "val cfl \<le> val (un_l pr)" by (rule dsub_ge_0D)
  show False using 1 2 cf by linarith
qed

lemma length_consFlux: "consFlux idir gamma lay naux U = Inr F \<Longrightarrow> length F = length U"
  by (auto simp: consFlux_def Let_def bnd_eq_Inr_iff set_slice_def split: if_splits)

text \<open>
  C1, as the code has it. Take an interface \<open>(a, b)\<close> whose left and right states are equal and
  whose wave speeds are computed within the real numbers: the primitive quantities and the
  two bounds \<open>bp\<close>, \<open>bm\<close> of \<open>riemann_bounds\<close> exist (density not zero, no square root of a
  negative number; otherwise the code goes on with NaN and nothing is said here). Then
  \<open>consFlux\<close> of the state is defined, \<open>bm \<le> 0 \<le> bp\<close> and \<open>bp \<noteq> bm\<close>, the dissipation term of
  the blend vanishes, and the iteration of the loop at that interface completes and stores
  in every component \<open>k\<close> the rounded self-blend \<open>(bp * f ! k - bm * f ! k) / (bp - bm)\<close> of the
  component of \<open>consFlux\<close>: the physical flux up to the rounding of two products, a
  difference and a quotient, and the physical flux itself in exact arithmetic. Whenever a
  call of \<open>riemann_adiabatic\<close> yields its array with the interface in the computed range, the
  array holds these values there.
\<close>

theorem riemann_equal_states_flux:
  assumes a: "a < qx3 U_l" and b: "b < qy3 U_l"
      and shape: "qx3 U_r = qx3 U_l" "qy3 U_r = qy3 U_l"
      and bshape: "a < qx2 (if idir = 1 then Bx else By)" "b < qy2 (if idir = 1 then Bx else By)"
      and eq: "cell U_r a b = cell U_l a b"
      and s: "resolve (nvar3 U_l) lay = Inr s"
      and pr: "riemann_prims idir gamma s (cell U_l a b) (cell U_l a b)
                 (elem2 (if idir = 1 then Bx else By) a b) = Inr pr"
      and bd: "riemann_bounds idir gamma lay s (cell U_l a b) (cell U_l a b) pr = Inr (bp, bm)"
  shows "\<exists>f. consFlux idir gamma lay nspec (cell U_l a b) = Inr f \<and> length f = nvar3 U_l
           \<and> bm \<le> 0 \<and> 0 \<le> bp \<and> bp \<noteq> bm
           \<and> riemann_body idir gamma lay nspec U_l U_r Bx By (int a) (int b) F =
               Inr (set_cell F a b
                      (map (\<lambda>k. (bp * f ! k - bm * f ! k) / (bp - bm)) [0..<nvar3 U_l]))
           \<and> (\<forall>G. riemann_adiabatic idir ng lay nspec lower_solid upper_solid gamma U_l U_r Bx By = Inr G
                  \<and> 2 \<le> ng \<and> ng - 2 \<le> int a \<and> int a < int (qx3 U_l) - ng + 2
                  \<and> ng - 2 \<le> int b \<and> int b < int (qy3 U_l) - ng + 2
                \<longrightarrow> (\<forall>k<nvar3 U_l. elem3 G a b k = (bp * f ! k - bm * f ! k) / (bp - bm)))"
proof -
  let ?B = "if idir = 1 then Bx else By"
  let ?u = "cell U_l a b"
  have s': "resolve (length ?u) lay = Inr s" using s by simp
  have n: "bp \<noteq> bm" using pr bd by (rule equal_states_bounds_differ)
  from riemann_cell_equal_states[OF s' pr bd, of nspec] n obtain f where
    f: "consFlux idir gamma lay nspec ?u = Inr f"
    and c: "riemann_cell idir gamma lay nspec ?u ?u (elem2 ?B a b) =
               Inr (map (\<lambda>k. (bp * f ! k - bm * f ! k) / (bp - bm)) [0..<nvar3 U_l])"
    by auto
  have lf: "length f = nvar3 U_l" using length_consFlux[OF f] by simp
  have g: "get2 ?B (int a) (int b) = Inr (elem2 ?B a b)"
    using get2_int[of "int a" ?B "int b"] bshape by simp
  have body: "riemann_body idir gamma lay nspec U_l U_r Bx By (int a) (int b) F =
               Inr (set_cell F a b
                      (map (\<lambda>k. (bp * f ! k - bm * f ! k) / (bp - bm)) [0..<nvar3 U_l]))"
    unfolding riemann_body_def using a b shape g eq c
    by (simp add: py_index_int)
  have arr: "\<forall>k<nvar3 U_l. elem3 G a b k = (bp * f ! k - bm * f ! k) / (bp - bm)"
    if G: "riemann_adiabatic idir ng lay nspec lower_solid upper_solid gamma U_l U_r Bx By = Inr G"
      and r: "2 \<le> ng" "ng - 2 \<le> int a" "int a < int (qx3 U_l) - ng + 2"
             "ng - 2 \<le> int b" "int b < int (qy3 U_l) - ng + 2" for G
  proof -
    have "riemann_cell idir gamma lay nspec ?u ?u (elem2 ?B a b) = Inr (cell G a b)"
      using riemann_adiabatic_cells[OF G r] eq by simp
    with c have v: "cell G a b = map (\<lambda>k. (bp * f ! k - bm * f ! k) / (bp - bm)) [0..<nvar3 U_l]"
      by simp
    have nv: "nvar3 G = nvar3 U_l" using length_cell[of G a b] unfolding v by simp
    have "elem3 G a b k = (bp * f ! k - bm * f ! k) / (bp - bm)" if "k < nvar3 U_l" for k
      using nth_cell[of k G a b] that nv unfolding v by simp
    then show ?thesis by blast
  qed
  show ?thesis
    using f lf riemann_bounds_Inr_sign[OF bd] n body arr by blast
qed


text \<open>
  The stored flux is not the physical flux exactly: for the supersonic state the bounds are
  3 and 0, the species flux is the double 0.2, and \<open>(3 * 0.2 - 0 * 0.2) / (3 - 0)\<close> is the
  double 0.20000000000000004.
\<close>

theorem riemann_equal_states_flux_counterexample:
  "\<exists>F f. riemann_adiabatic 1 4 lay7 1 0 0 (dbl 2) gridA gridA (zeros2 9 9) (zeros2 9 9) = Inr F
     \<and> consFlux 1 (dbl 2) lay7 1 (cell gridA 4 4) = Inr f \<and> elem3 F 4 4 6 \<noteq> f ! 6"
proof -
  from riemann_gridA obtain F where
    F: "riemann_adiabatic 1 4 lay7 1 0 0 (dbl 2) gridA gridA (zeros2 9 9) (zeros2 9 9) = Inr F"
    by blast
  have "riemann_cell 1 (dbl 2) lay7 1 (cell gridA 4 4) (cell gridA 4 4)
          (elem2 (if (1::int) = 1 then zeros2 9 9 else zeros2 9 9) 4 4) = Inr (cell F 4 4)"
    by (rule riemann_adiabatic_cells[OF F]) simp_all
  then have "cell F 4 4 = cellA" by (simp add: riemann_cellA)
  moreover have "nvar3 F = 7"
    using length_cell[of F 4 4] \<open>cell F 4 4 = cellA\<close> by (simp add: cellA_def)
  ultimately have "elem3 F 4 4 6 = cellA ! 6" using nth_cell[of 6 F 4 4] by simp
  then have "elem3 F 4 4 6 \<noteq> fluxA ! 6" using cellA_differs by simp
  moreover have "consFlux 1 (dbl 2) lay7 1 (cell gridA 4 4) = Inr fluxA" by (simp add: fluxA_eval)
  ultimately show ?thesis using F by blast
qed

theorem riemann_equal_states_flux_witness:
  "((4::nat) < qx3 gridA \<and> (4::nat) < qy3 gridA \<and> cell gridA 4 4 = cell gridA 4 4
    \<and> resolve (nvar3 gridA) lay7 = Inr slots7
    \<and> riemann_prims 1 (dbl 2) slots7 (cell gridA 4 4) (cell gridA 4 4)
          (elem2 (if (1::int) = 1 then zeros2 9 9 else zeros2 9 9) 4 4) = Inr primsA
    \<and> riemann_bounds 1 (dbl 2) lay7 slots7 (cell gridA 4 4) (cell gridA 4 4) primsA = Inr (dbl 3, 0))
   \<and> (\<exists>f. consFlux 1 (dbl 2) lay7 1 (cell gridA 4 4) = Inr f \<and> length f = nvar3 gridA
           \<and> 0 \<le> (0::double) \<and> 0 \<le> dbl 3 \<and> dbl 3 \<noteq> 0
           \<and> riemann_body 1 (dbl 2) lay7 1 gridA gridA (zeros2 9 9) (zeros2 9 9) (int 4) (int 4)
                 (zeros3 9 9 7) =
               Inr (set_cell (zeros3 9 9 7) 4 4
                      (map (\<lambda>k. (dbl 3 * f ! k - 0 * f ! k) / (dbl 3 - 0)) [0..<nvar3 gridA]))
           \<and> (\<forall>G. riemann_adiabatic 1 4 lay7 1 0 0 (dbl 2) gridA gridA (zeros2 9 9) (zeros2 9 9) = Inr G
                  \<and> 2 \<le> (4::int) \<and> 4 - 2 \<le> int 4 \<and> int 4 < int (qx3 gridA) - 4 + 2
                  \<and> 4 - 2 \<le> int 4 \<and> int 4 < int (qy3 gridA) - 4 + 2
                \<longrightarrow> (\<forall>k<nvar3 gridA. elem3 G 4 4 k = (dbl 3 * f ! k - 0 * f ! k) / (dbl 3 - 0))))
   \<and> (\<exists>G. riemann_adiabatic 1 4 lay7 1 0 0 (dbl 2) gridA gridA (zeros2 9 9) (zeros2 9 9) = Inr G
          \<and> 2 \<le> (4::int) \<and> 4 - 2 \<le> int 4 \<and> int 4 < int (qx3 gridA) - 4 + 2
          \<and> 4 - 2 \<le> int 4 \<and> int 4 < int (qy3 gridA) - 4 + 2)"
proof -
  have a: "(4::nat) < qx3 gridA" and b: "(4::nat) < qy3 gridA" by simp_all
  have sh: "qx3 gridA = qx3 gridA" "qy3 gridA = qy3 gridA" by simp_all
  have bs: "(4::nat) < qx2 (if (1::int) = 1 then zeros2 9 9 else zeros2 9 9)"
           "(4::nat) < qy2 (if (1::int) = 1 then zeros2 9 9 else zeros2 9 9)" by simp_all
  have e: "cell gridA 4 4 = cell gridA 4 4" by simp
  have s: "resolve (nvar3 gridA) lay7 = Inr slots7" by (simp add: resolve_lay7)
  have p: "riemann_prims 1 (dbl 2) slots7 (cell gridA 4 4) (cell gridA 4 4)
             (elem2 (if (1::int) = 1 then zeros2 9 9 else zeros2 9 9) 4 4) = Inr primsA"
    by (simp add: primsA_eval)
  have d: "riemann_bounds 1 (dbl 2) lay7 slots7 (cell gridA 4 4) (cell gridA 4 4) primsA = Inr (dbl 3, 0)"
    by (simp add: boundsA_eval)
  have g: "\<exists>G. riemann_adiabatic 1 4 lay7 1 0 0 (dbl 2) gridA gridA (zeros2 9 9) (zeros2 9 9) = Inr G
          \<and> 2 \<le> (4::int) \<and> 4 - 2 \<le> int 4 \<and> int 4 < int (qx3 gridA) - 4 + 2
          \<and> 4 - 2 \<le> int 4 \<and> int 4 < int (qy3 gridA) - 4 + 2"
    using riemann_gridA by simp
  note t = riemann_equal_states_flux[OF a b sh bs e s p d,
      where nspec = 1 and F = "zeros3 9 9 7" and ng = 4 and lower_solid = 0 and upper_solid = 0]
  show ?thesis
    by (rule conjI[OF conjI[OF a conjI[OF b conjI[OF e conjI[OF s conjI[OF p d]]]]] conjI[OF t g]])
qed

theorem riemann_bounds_sign_witness:
  "riemann_bounds 1 (dbl 2) lay7 slots7 stateA stateA primsA = Inr (dbl 3, 0) \<and> 0 \<le> (0::double) \<and> 0 \<le> dbl 3"
  by (rule conjI[OF boundsA_eval riemann_bounds_sign[OF boundsA_eval]])

subsection \<open>The floors of pressure and sound speed\<close>












lemma zero_less_one_double [simp]: "(0::double) < 1"
  by (simp add: val_order val_arith)












lemma cell_gridL [simp]: "cell gridL i j = stateL"
  by (simp add: cell_def gridL_def stateL_def upt_rec)

lemma cell_gridR [simp]: "cell gridR i j = stateR"
  by (simp add: cell_def gridR_def stateR_def upt_rec)

lemma shape_gridLR [simp]: "qx3 gridL = 9" "qy3 gridL = 9" "nvar3 gridL = 7"
  "qx3 gridR = 9" "qy3 gridR = 9" "nvar3 gridR = 7"
  by (simp_all add: gridL_def gridR_def)




subsection \<open>An interface that leaves the real numbers\<close>

text \<open>
  With the state \<open>stateN\<close> on both sides the pressure is floored, but the Roe-averaged state
  keeps the energy of the input: \<open>calc_evals\<close> finds \<open>a2 = -1/2\<close> and \<open>Cs2 = -1/2\<close> and takes
  the square root of \<open>Cs2\<close>. The Python code goes on with NaN from there; the model stops.
  This is why the statements on equal states and on the floors carry hypotheses on the
  interface itself.
\<close>

lemma primsN_eval: "riemann_prims 1 (dbl 2) slots7 stateN stateN 0 = Inr primsN"
proof -
  have tp: "thermal_pressure (dbl 2) (dbl (1 / 4)) 1 1 0 0 = dbl (- (1 / 4))"
    by (simp add: thermal_pressure_def half_def dbl_eval del: dbl_0 dbl_1)
  have "val (dbl (- (1 / 4))) = - (1 / 4)" by (rule val_dbl) simp
  then have "dbl (- (1 / 4)) \<le> smallp"
    using smallp_pos by (simp add: less_eq_double.rep_eq less_double.rep_eq zero_double.rep_eq)
  then have mx: "max (dbl (- (1 / 4))) smallp = smallp" by (simp add: max_def)
  have ss: "sound_speed (dbl 2) smallp 1 = Inr cB"
    unfolding cB_def by (rule sound_speed_total) (simp_all add: dbl_le_iff[of 0 2, simplified])
  show ?thesis
    by (simp add: riemann_prims_def stateN_def slots7_def pdiv_def Let_def tp mx ss primsN_def)
qed

lemma primsN_sel:
  "rho_l primsN = 1" "rho_r primsN = 1" "c_l primsN = cB" "c_r primsN = cB"
  "Bx_l primsN = 0" "By_l primsN = 0" "Bx_r primsN = 0" "By_r primsN = 0"
  "B2_l primsN = 0" "B2_r primsN = 0" "un_l primsN = 1" "un_r primsN = 1"
  by (simp_all add: primsN_def)

lemma roe_averageN:
  "roe_average (dbl 2) lay7 slots7 stateN stateN primsN = Inr [1, 1, 0, dbl (- (1 / 2)), 0, 0, 0]"
  by (simp add: roe_average_def stateN_def slots7_def primsN_sel pdiv_def psqrt_def
      half_def Let_def dbl_eval set_slice_def slice_pos_def lay7_def dbl0_ops
      del: dbl_0 dbl_1)

lemma roe_conservedN:
  "roe_conserved (dbl 2) lay7 slots7 [1, 1, 0, dbl (- (1 / 2)), 0, 0, 0] = Inr stateN"
  by (simp add: roe_conserved_def slots7_def pdiv_def half_def stateN_def
      Let_def dbl_eval set_slice_def slice_pos_def lay7_def dbl0_ops
      del: dbl_0 dbl_1)

lemma roe_correctionsN: "roe_corrections 1 slots7 primsN stateN = Inr (0, 1)"
  by (simp add: roe_corrections_def slots7_def primsN_sel pdiv_def psqrt_def half_def stateN_def
      Let_def dbl_eval dbl0_ops del: dbl_0 dbl_1)

lemma dsqrt_quarter: "dsqrt (dbl (1 / 4)) = dbl (1 / 2)"
  using dbl_sqrt[of "1 / 4"] by (simp add: real_sqrt_divide)

lemma evalsN: "calc_evals 1 stateN (dbl 2) slots7 0 1 = Inl NaN"
  by (simp add: calc_evals_def slots7_def pdiv_def psqrt_def half_def Let_def dsqrt_quarter
      dbl_eval dbl0_ops stateN_def del: dbl_0 dbl_1)

lemma riemann_cellN: "riemann_cell 1 (dbl 2) lay7 1 stateN stateN 0 = Inl NaN"
proof -
  have l: "length stateN = 7" by (simp add: stateN_def)
  have b: "riemann_bounds 1 (dbl 2) lay7 slots7 stateN stateN primsN = Inl NaN"
    by (simp add: riemann_bounds_def roe_averageN roe_conservedN roe_correctionsN evalsN)
  show ?thesis
    by (simp add: riemann_cell_def resolve_lay7 l primsN_eval b)
qed


end
